theory Spec2Isabelle
  imports Main "HOL-Library.AList"
begin

section \<open>Configuration data\<close>

text \<open>
  The tab names that occur in a configuration (\<^verbatim>\<open>t.name as TabType\<close> in
  \<^verbatim>\<open>reloadConfiguration\<close>).
\<close>

datatype TabType = TAB_MESSAGING | TAB_FOCALBOARD | TAB_PLAYBOOKS

text \<open>
  \<^verbatim>\<open>Tab\<close> and \<^verbatim>\<open>TeamWithTabs\<close> of \<^verbatim>\<open>types/config\<close>, with the fields that
  \<^verbatim>\<open>viewManager.ts\<close> reads. The optional \<^verbatim>\<open>isOpen\<close> is a boolean: the code only
  tests its truthiness (\<^verbatim>\<open>Boolean(tab.isOpen)\<close>, \<^verbatim>\<open>!tab.isOpen\<close>), so a missing flag is
  \<open>False\<close>. URLs are kept as their canonical \<^verbatim>\<open>href\<close> string.
\<close>

record Tab =
  tab_name :: TabType
  tab_order :: int
  tab_isOpen :: bool

record TeamWithTabs =
  team_name :: string
  team_url :: string
  team_order :: int
  team_tabs :: "Tab list"
  team_lastActiveTab :: "int option"

record MattermostServer =
  srv_name :: string
  srv_url :: string

record ServerInfo =
  info_server :: MattermostServer
  serverVersion :: "string option"

type_synonym TabTuple = "string \<times> TabType"

fun tabTypeName :: "TabType \<Rightarrow> string" where
  "tabTypeName TAB_MESSAGING = ''TAB_MESSAGING''"
| "tabTypeName TAB_FOCALBOARD = ''TAB_FOCALBOARD''"
| "tabTypeName TAB_PLAYBOOKS = ''TAB_PLAYBOOKS''"

text \<open>
  Modelled from the spec: \<^verbatim>\<open>getTabViewName\<close> of \<^verbatim>\<open>common/tabs/TabView\<close> is not among
  the sources; the view name is "derived \<^verbatim>\<open>serverName:tabName\<close>".
\<close>

definition getTabViewName :: "string \<Rightarrow> TabType \<Rightarrow> string" where
  "getTabViewName serverName tabType = serverName @ '':'' @ tabTypeName tabType"

section \<open>Views\<close>

text \<open>
  The listeners that the view manager attaches to a view for \<^verbatim>\<open>LOAD_SUCCESS\<close> and
  \<^verbatim>\<open>LOAD_FAILED\<close>, named after the handler they call. \<open>H_reshow name\<close> is the
  closure that \<^verbatim>\<open>openClosedTab\<close> registers. The listeners for \<^verbatim>\<open>UPDATE_TARGET_URL\<close>
  and \<^verbatim>\<open>LOADSCREEN_END\<close> are attached once in \<^verbatim>\<open>makeView\<close> and never removed, so
  they are not stored.
\<close>

datatype handler =
    H_activateView
  | H_failLoading
  | H_deeplinkSuccess
  | H_deeplinkFailed
  | H_reshow string

datatype listener = On handler | Once handler

fun handler_of :: "listener \<Rightarrow> handler" where
  "handler_of (On h) = h"
| "handler_of (Once h) = h"

fun is_once :: "listener \<Rightarrow> bool" where
  "is_once (On h) = False"
| "is_once (Once h) = True"

datatype LoadStatus = Loading | Ready | Errored

text \<open>
  Modelled from the spec: the class \<^verbatim>\<open>MattermostView\<close> is not among the sources. A view
  wraps one web-content surface (\<open>surface\<close> is its identity) bound to a server and a tab
  type; it has the flags \<^verbatim>\<open>isVisible\<close>, errored, initialized, and needs the loading
  screen until its first successful load.
\<close>

record MattermostView =
  surface :: nat
  tab_server :: MattermostServer
  tab_type :: TabType
  serverInfo :: ServerInfo
  isVisible :: bool
  status :: LoadStatus
  loadedOnce :: bool
  initialized :: bool
  onLoadSuccess :: "listener list"
  onLoadFailed :: "listener list"

definition view_name :: "MattermostView \<Rightarrow> string" where
  "view_name v = getTabViewName (srv_name (tab_server v)) (tab_type v)"

definition view_tuple :: "MattermostView \<Rightarrow> TabTuple" where
  "view_tuple v = (srv_url (tab_server v), tab_type v)"

definition isErrored :: "MattermostView \<Rightarrow> bool" where
  "isErrored v = (status v = Errored)"

definition isReady :: "MattermostView \<Rightarrow> bool" where
  "isReady v = loadedOnce v"

definition needsLoadingScreen :: "MattermostView \<Rightarrow> bool" where
  "needsLoadingScreen v = (\<not> loadedOnce v)"

definition isInitialized :: "MattermostView \<Rightarrow> bool" where
  "isInitialized v = initialized v"

text \<open>\<^verbatim>\<open>show()\<close> is a no-op on an errored view; \<^verbatim>\<open>hide()\<close> always hides.\<close>

definition view_show :: "MattermostView \<Rightarrow> MattermostView" where
  "view_show v = (if isErrored v then v else v\<lparr>isVisible := True\<rparr>)"

definition view_hide :: "MattermostView \<Rightarrow> MattermostView" where
  "view_hide v = v\<lparr>isVisible := False\<rparr>"

definition view_resetLoadingStatus :: "MattermostView \<Rightarrow> MattermostView" where
  "view_resetLoadingStatus v = v\<lparr>status := Loading\<rparr>"

definition view_load :: "MattermostView \<Rightarrow> MattermostView" where
  "view_load v = v\<lparr>status := Loading\<rparr>"

section \<open>The view manager's state\<close>

datatype LoadingScreenState = VISIBLE | FADING | HIDDEN

text \<open>What the manager does to the outside world, in the order it does it.\<close>

datatype effect =
    ViewLoad nat "string option"
  | ViewDestroy nat
  | SendSetActiveView string TabType
  | SendSetActiveViewNone
  | EmitSetActiveView string TabType
  | EmitUpdateLastActive string TabType
  | EmitOpenTab string TabType
  | ShowModal
  | SendHistoryPush nat string
  | ShowErrorBox string string
  | ToggleLoadingScreen bool
  | AddWebContentsEventListeners nat

text \<open>
  The JavaScript \<^verbatim>\<open>Map\<close>s are association lists in insertion order, written with
  \<^const>\<open>AList.update\<close> (\<^verbatim>\<open>set\<close>), \<^const>\<open>AList.delete\<close> and \<^const>\<open>map_of\<close> (\<^verbatim>\<open>get\<close>).
  \<open>nextSurface\<close> numbers the surfaces created so far; \<open>urlOverlays\<close> are the URL
  preview surfaces attached to the main window, \<open>timers\<close> the pending
  \<^verbatim>\<open>setTimeout\<close>s (overlay, delay in milliseconds) and \<open>widthListeners\<close> the
  \<^verbatim>\<open>adjustWidth\<close> listeners on \<^verbatim>\<open>UPDATE_URL_VIEW_WIDTH\<close>, each named by its overlay.
  \<open>urlViewCancel\<close> holds the overlay whose timer, listener and surface the cancel
  closure captured.

  A closed-view record \<^verbatim>\<open>{srv, tab}\<close> holds a \<^verbatim>\<open>Tab\<close> object, which \<^verbatim>\<open>openClosedTab\<close>
  writes into. \<^verbatim>\<open>load\<close> takes the object from \<^verbatim>\<open>this.configServers\<close>, so the write is
  seen there; \<^verbatim>\<open>reloadConfiguration\<close> takes it from its argument, which the manager does
  not keep. A record therefore carries the fields of the \<^verbatim>\<open>Tab\<close> and its place: the
  position (server, tab) of the object in \<^verbatim>\<open>this.configServers\<close>, or \<open>None\<close> for an object
  that is not one of \<^verbatim>\<open>this.configServers\<close>. The array \<^verbatim>\<open>this.configServers\<close> and the
  \<^verbatim>\<open>tabs\<close> arrays in it are never reassigned, so a position names the same object
  throughout.
\<close>

type_synonym TabPlace = "(nat \<times> nat) option"

record ViewManager =
  configServers :: "TeamWithTabs list"
  lastActiveServer :: "int option"
  closedViews :: "(string \<times> (MattermostServer \<times> Tab \<times> TabPlace)) list"
  views :: "(string \<times> MattermostView) list"
  currentView :: "string option"
  urlViewCancel :: "nat option"
  urlOverlays :: "(nat \<times> string) list"
  timers :: "(nat \<times> nat) list"
  widthListeners :: "nat list"
  loadingScreen :: bool
  loadingScreenState :: LoadingScreenState
  nextSurface :: nat
  effects :: "effect list"

definition emitEffect :: "effect \<Rightarrow> ViewManager \<Rightarrow> ViewManager" where
  "emitEffect e s = s\<lparr>effects := effects s @ [e]\<rparr>"

definition getCurrentView :: "ViewManager \<Rightarrow> MattermostView option" where
  "getCurrentView s =
     (case currentView s of
        None \<Rightarrow> None
      | Some n \<Rightarrow> if n = [] then None else map_of (views s) n)"

definition showLoadingScreen :: "ViewManager \<Rightarrow> ViewManager" where
  "showLoadingScreen s =
     emitEffect (ToggleLoadingScreen True)
       (s\<lparr>loadingScreen := True, loadingScreenState := VISIBLE\<rparr>)"

definition fadeLoadingScreen :: "ViewManager \<Rightarrow> ViewManager" where
  "fadeLoadingScreen s =
     (if loadingScreen s \<and> loadingScreenState s = VISIBLE
      then emitEffect (ToggleLoadingScreen False) (s\<lparr>loadingScreenState := FADING\<rparr>)
      else s)"

subsection \<open>showByName\<close>

text \<open>The four steps of \<^verbatim>\<open>showByName\<close> on a target that exists and is not visible.\<close>

definition hidePrevious :: "string \<Rightarrow> ViewManager \<Rightarrow> ViewManager" where
  "hidePrevious name s =
     (case currentView s of
        None \<Rightarrow> s
      | Some c \<Rightarrow>
          if c = [] \<or> c = name then s
          else (case map_of (views s) c of
                  None \<Rightarrow> s
                | Some previous \<Rightarrow> s\<lparr>views := AList.map_entry c view_hide (views s)\<rparr>))"

definition setCurrent :: "string \<Rightarrow> ViewManager \<Rightarrow> ViewManager" where
  "setCurrent name s = s\<lparr>currentView := Some name\<rparr>"

definition showTarget :: "string \<Rightarrow> MattermostView \<Rightarrow> ViewManager \<Rightarrow> ViewManager" where
  "showTarget name newView s =
     (if isErrored newView then s
      else (let s1 = s\<lparr>views := AList.map_entry name view_show (views s)\<rparr>
            in if needsLoadingScreen newView then showLoadingScreen s1 else s1))"

definition notifyActive :: "MattermostView \<Rightarrow> ViewManager \<Rightarrow> ViewManager" where
  "notifyActive newView s =
     (let sn = srv_name (tab_server newView); ty = tab_type newView;
          s1 = emitEffect (EmitSetActiveView sn ty) (emitEffect (SendSetActiveView sn ty) s);
          s2 = (if isReady newView then emitEffect (EmitUpdateLastActive sn ty) s1 else s1)
      in emitEffect ShowModal s2)"

definition showByName :: "string \<Rightarrow> ViewManager \<Rightarrow> ViewManager" where
  "showByName name s =
     (case map_of (views s) name of
        None \<Rightarrow> emitEffect ShowModal s
      | Some newView \<Rightarrow>
          if isVisible newView then s
          else notifyActive newView
                 (showTarget name newView (setCurrent name (hidePrevious name s))))"

subsection \<open>Creating views\<close>

text \<open>
  Modelled from the spec: the constructors of \<^verbatim>\<open>MattermostView\<close>, \<^verbatim>\<open>MattermostServer\<close>
  and \<^verbatim>\<open>ServerInfo\<close> are not among the sources. A new view is hidden, loading and not
  initialized; a new \<^verbatim>\<open>ServerInfo\<close> has not fetched the remote version yet. A
  \<^verbatim>\<open>ServerInfo\<close> object is shared by the views of one \<^verbatim>\<open>loadServer\<close> call; each view
  holds a copy here, which is the same as long as nothing writes into it, and no
  operation of the view manager does.
\<close>

definition newMattermostView ::
  "nat \<Rightarrow> MattermostServer \<Rightarrow> TabType \<Rightarrow> ServerInfo \<Rightarrow> MattermostView" where
  "newMattermostView i srv ty info =
     \<lparr>surface = i, tab_server = srv, tab_type = ty, serverInfo = info,
      isVisible = False, status = Loading, loadedOnce = False, initialized = False,
      onLoadSuccess = [], onLoadFailed = []\<rparr>"

definition newMattermostServer :: "string \<Rightarrow> string \<Rightarrow> MattermostServer" where
  "newMattermostServer name url = \<lparr>srv_name = name, srv_url = url\<rparr>"

definition newServerInfo :: "MattermostServer \<Rightarrow> ServerInfo" where
  "newServerInfo srv = \<lparr>info_server = srv, serverVersion = None\<rparr>"

definition newViewManager :: "TeamWithTabs list \<Rightarrow> int option \<Rightarrow> ViewManager" where
  "newViewManager teams lastActiveTeam =
     \<lparr>configServers = teams, lastActiveServer = lastActiveTeam, closedViews = [],
      views = [], currentView = None, urlViewCancel = None, urlOverlays = [],
      timers = [], widthListeners = [], loadingScreen = False,
      loadingScreenState = HIDDEN, nextSurface = 0, effects = []\<rparr>"

text \<open>
  \<^verbatim>\<open>makeView\<close>: forget a closed-view record of that name, create the view, register
  \<^verbatim>\<open>activateView\<close> once for \<^verbatim>\<open>LOAD_SUCCESS\<close>, start loading, register \<^verbatim>\<open>failLoading\<close>.
\<close>

definition makeView ::
  "MattermostServer \<Rightarrow> ServerInfo \<Rightarrow> Tab \<Rightarrow> string option \<Rightarrow> ViewManager
     \<Rightarrow> MattermostView \<times> ViewManager" where
  "makeView srv info tab url s =
     (let name = getTabViewName (srv_name srv) (tab_name tab);
          s1 = s\<lparr>closedViews := AList.delete name (closedViews s)\<rparr>;
          view = (newMattermostView (nextSurface s1) srv (tab_name tab) info)
                   \<lparr>onLoadSuccess := [Once H_activateView], onLoadFailed := [On H_failLoading]\<rparr>
      in (view_load view,
          emitEffect (ViewLoad (surface view) url) (s1\<lparr>nextSurface := Suc (nextSurface s1)\<rparr>)))"

definition addView :: "MattermostView \<Rightarrow> ViewManager \<Rightarrow> ViewManager" where
  "addView view s =
     s\<lparr>views := AList.update (view_name view) view (views s), loadingScreen := True\<rparr>"

text \<open>
  \<^verbatim>\<open>loadView\<close>, with the place of the \<^verbatim>\<open>Tab\<close> object it is given; \<^verbatim>\<open>loadServer\<close>, with the
  position of the server object in \<^verbatim>\<open>this.configServers\<close> when it is one of them, as it
  is in \<^verbatim>\<open>load\<close>.
\<close>

definition loadView ::
  "MattermostServer \<Rightarrow> ServerInfo \<Rightarrow> Tab \<Rightarrow> TabPlace \<Rightarrow> string option \<Rightarrow> ViewManager
     \<Rightarrow> ViewManager" where
  "loadView srv info tab place url s =
     (if \<not> tab_isOpen tab
      then s\<lparr>closedViews :=
              AList.update (getTabViewName (srv_name srv) (tab_name tab)) (srv, tab, place)
                (closedViews s)\<rparr>
      else (case makeView srv info tab url s of (view, s1) \<Rightarrow> addView view s1))"

definition loadServer :: "nat option \<Rightarrow> TeamWithTabs \<Rightarrow> ViewManager \<Rightarrow> ViewManager" where
  "loadServer position server s =
     (let srv = newMattermostServer (team_name server) (team_url server);
          info = newServerInfo srv
      in foldl (\<lambda>s (j, tab). loadView srv info tab (map_option (\<lambda>i. (i, j)) position) None s) s
           (enumerate 0 (team_tabs server)))"

definition load :: "ViewManager \<Rightarrow> ViewManager" where
  "load s = foldl (\<lambda>s (i, server). loadServer (Some i) server s) s (enumerate 0 (configServers s))"

subsection \<open>Loading outcomes and their listeners\<close>

definition activateView :: "string \<Rightarrow> ViewManager \<Rightarrow> ViewManager" where
  "activateView viewName s =
     (let s1 = (if currentView s = Some viewName then showByName viewName s else s)
      in case map_of (views s1) viewName of
           None \<Rightarrow> s1
         | Some view \<Rightarrow> emitEffect (AddWebContentsEventListeners (surface view)) s1)"

definition finishLoading :: "string \<Rightarrow> ViewManager \<Rightarrow> ViewManager" where
  "finishLoading server s =
     (case map_of (views s) server of
        None \<Rightarrow> s
      | Some view \<Rightarrow>
          (case currentView s of
             None \<Rightarrow> s
           | Some c \<Rightarrow>
               if c \<noteq> [] \<and> c = server then fadeLoadingScreen (showByName c s) else s))"

definition failLoading :: "string \<Rightarrow> ViewManager \<Rightarrow> ViewManager" where
  "failLoading tabName s =
     (let s1 = fadeLoadingScreen s
      in if currentView s1 = Some tabName \<and> tabName \<noteq> []
         then s1\<lparr>views := AList.map_entry tabName view_hide (views s1)\<rparr>
         else s1)"

text \<open>
  \<^verbatim>\<open>removeListener\<close> takes out one instance of the listener, the one added last.
\<close>

fun removeFirst :: "handler \<Rightarrow> listener list \<Rightarrow> listener list" where
  "removeFirst h [] = []"
| "removeFirst h (l # ls) = (if handler_of l = h then ls else l # removeFirst h ls)"

definition removeListener :: "handler \<Rightarrow> listener list \<Rightarrow> listener list" where
  "removeListener h ls = rev (removeFirst h (rev ls))"

definition deeplinkSuccess :: "string \<Rightarrow> ViewManager \<Rightarrow> ViewManager" where
  "deeplinkSuccess viewName s =
     (case map_of (views s) viewName of
        None \<Rightarrow> s
      | Some view \<Rightarrow>
          (let s1 = showByName viewName s
           in s1\<lparr>views := AList.map_entry viewName
                    (\<lambda>v. v\<lparr>onLoadFailed := removeListener H_deeplinkFailed (onLoadFailed v)\<rparr>)
                    (views s1)\<rparr>))"

definition deeplinkFailed :: "string \<Rightarrow> ViewManager \<Rightarrow> ViewManager" where
  "deeplinkFailed viewName s =
     (case map_of (views s) viewName of
        None \<Rightarrow> s
      | Some view \<Rightarrow>
          s\<lparr>views := AList.map_entry viewName
                 (\<lambda>v. v\<lparr>onLoadSuccess := removeListener H_deeplinkSuccess (onLoadSuccess v)\<rparr>)
                 (views s)\<rparr>)"

text \<open>
  Running one listener of the view stored under \<open>key\<close>, called with the view's name.
  The closure of \<^verbatim>\<open>openClosedTab\<close> writes \<^verbatim>\<open>isVisible = false\<close> into the view it
  captured, which is the emitting view, and calls \<^verbatim>\<open>showByName\<close> with the name it
  captured.
\<close>

fun runHandler :: "string \<Rightarrow> string \<Rightarrow> handler \<Rightarrow> ViewManager \<Rightarrow> ViewManager" where
  "runHandler key viewName H_activateView s = activateView viewName s"
| "runHandler key viewName H_failLoading s = failLoading viewName s"
| "runHandler key viewName H_deeplinkSuccess s = deeplinkSuccess viewName s"
| "runHandler key viewName H_deeplinkFailed s = deeplinkFailed viewName s"
| "runHandler key viewName (H_reshow name) s =
     showByName name (s\<lparr>views := AList.map_entry key (\<lambda>v. v\<lparr>isVisible := False\<rparr>) (views s)\<rparr>)"

text \<open>
  Modelled from the spec: the view's own part of a load outcome is not among the
  sources. "On success emits \<^verbatim>\<open>LOAD_SUCCESS\<close> exactly once per load attempt and clears
  errored state"; on failure the view is errored and emits \<^verbatim>\<open>LOAD_FAILED\<close>. The
  emitter calls the listeners registered at that moment in the order they were added,
  and drops the \<^verbatim>\<open>once\<close> listeners before it calls them.
\<close>

definition emitLoadSuccess :: "string \<Rightarrow> ViewManager \<Rightarrow> ViewManager" where
  "emitLoadSuccess key s =
     (case map_of (views s) key of
        None \<Rightarrow> s
      | Some view \<Rightarrow>
          (let s1 = s\<lparr>views := AList.map_entry key
                      (\<lambda>v. v\<lparr>status := Ready, loadedOnce := True,
                              onLoadSuccess := filter (\<lambda>l. \<not> is_once l) (onLoadSuccess v)\<rparr>)
                      (views s)\<rparr>
           in foldl (\<lambda>s l. runHandler key (view_name view) (handler_of l) s) s1
                (onLoadSuccess view)))"

definition emitLoadFailed :: "string \<Rightarrow> ViewManager \<Rightarrow> ViewManager" where
  "emitLoadFailed key s =
     (case map_of (views s) key of
        None \<Rightarrow> s
      | Some view \<Rightarrow>
          (let s1 = s\<lparr>views := AList.map_entry key
                      (\<lambda>v. v\<lparr>status := Errored,
                              onLoadFailed := filter (\<lambda>l. \<not> is_once l) (onLoadFailed v)\<rparr>)
                      (views s)\<rparr>
           in foldl (\<lambda>s l. runHandler key (view_name view) (handler_of l) s) s1
                (onLoadFailed view)))"

subsection \<open>Reopening a closed tab\<close>

datatype error = TypeError

text \<open>
  \<^verbatim>\<open>tab.isOpen = true\<close> on the \<^verbatim>\<open>Tab\<close> object of the record stored under \<open>name\<close>: the
  flag is set in the record and, when the object is one of \<^verbatim>\<open>this.configServers\<close>, in the
  configuration, where \<^verbatim>\<open>showInitial\<close> reads it. (A place outside the configuration names no
  object; the update of the list is then the identity.)
\<close>

definition markOpen :: "TabPlace \<Rightarrow> TeamWithTabs list \<Rightarrow> TeamWithTabs list" where
  "markOpen place servers =
     (case place of
        None \<Rightarrow> servers
      | Some (i, j) \<Rightarrow>
          servers[i := (servers ! i)
            \<lparr>team_tabs := (team_tabs (servers ! i))
               [j := (team_tabs (servers ! i) ! j)\<lparr>tab_isOpen := True\<rparr>]\<rparr>])"

definition setTabOpen :: "string \<Rightarrow> ViewManager \<Rightarrow> ViewManager" where
  "setTabOpen name s =
     (case map_of (closedViews s) name of
        None \<Rightarrow> s
      | Some (srv, tab, place) \<Rightarrow>
          s\<lparr>configServers := markOpen place (configServers s),
            closedViews := AList.map_entry name (\<lambda>r. (srv, tab\<lparr>tab_isOpen := True\<rparr>, place))
                             (closedViews s)\<rparr>)"

text \<open>
  \<^verbatim>\<open>openClosedTab\<close>. \<^verbatim>\<open>this.views.get(name)!\<close> is a \<^verbatim>\<open>TypeError\<close> at the next line when
  no view of that name exists.
\<close>

definition openClosedTab :: "string \<Rightarrow> string option \<Rightarrow> ViewManager \<Rightarrow> error + ViewManager" where
  "openClosedTab name url s =
     (case map_of (closedViews s) name of
        None \<Rightarrow> Inr s
      | Some (srv, tab, place) \<Rightarrow>
          (let s0 = setTabOpen name s;
               s1 = loadView srv (newServerInfo srv) (tab\<lparr>tab_isOpen := True\<rparr>) place url s0;
               s2 = showByName name s1
           in case map_of (views s2) name of
                None \<Rightarrow> Inl TypeError
              | Some view \<Rightarrow>
                  Inr (emitEffect (EmitOpenTab (srv_name srv) (tab_name tab))
                         (s2\<lparr>views := AList.map_entry name
                                (\<lambda>v. v\<lparr>isVisible := True,
                                        onLoadSuccess := onLoadSuccess v @ [On (H_reshow name)]\<rparr>)
                                (views s2)\<rparr>))))"

subsection \<open>The default selection\<close>

definition orElse :: "'a option \<Rightarrow> 'a option \<Rightarrow> 'a option" where
  "orElse a b = (case a of None \<Rightarrow> b | Some x \<Rightarrow> Some x)"

definition initialTab :: "TeamWithTabs \<Rightarrow> Tab option" where
  "initialTab element =
     (let tab = orElse (find (\<lambda>t. Some (tab_order t) = team_lastActiveTab element) (team_tabs element))
                       (find (\<lambda>t. tab_order t = 0) (team_tabs element))
      in if (case tab of None \<Rightarrow> False | Some t \<Rightarrow> tab_isOpen t) then tab
         else (let openTabs = filter tab_isOpen (team_tabs element)
               in orElse (find (\<lambda>e. tab_order e = 0) openTabs)
                         (case sort_key tab_order openTabs of [] \<Rightarrow> None | t # ts \<Rightarrow> Some t)))"

definition showInitial :: "ViewManager \<Rightarrow> ViewManager" where
  "showInitial s =
     (if configServers s = [] then s
      else (case orElse (find (\<lambda>e. Some (team_order e) = lastActiveServer s) (configServers s))
                        (find (\<lambda>e. team_order e = 0) (configServers s)) of
              None \<Rightarrow> s
            | Some element \<Rightarrow>
                if team_tabs element = [] then s
                else (case initialTab element of
                        None \<Rightarrow> s
                      | Some tab \<Rightarrow>
                          showByName (getTabViewName (team_name element) (tab_name tab)) s)))"

subsection \<open>reloadConfiguration\<close>

record ExtraData =
  ed_srv :: MattermostServer
  ed_info :: ServerInfo
  ed_tab :: Tab
  ed_view :: string
  ed_open :: bool

text \<open>
  \<open>ed_view\<close> is the name of the \<^verbatim>\<open>TabView\<close> that \<^verbatim>\<open>getServerView(srv, tab)\<close> returns,
  the only part of it that is read.
\<close>

definition extraData :: "TeamWithTabs \<Rightarrow> Tab \<Rightarrow> ExtraData" where
  "extraData server tab =
     (let srv = newMattermostServer (team_name server) (team_url server)
      in \<lparr>ed_srv = srv, ed_info = newServerInfo srv, ed_tab = tab,
          ed_view = getTabViewName (srv_name srv) (tab_name tab), ed_open = tab_isOpen tab\<rparr>)"

definition mapFrom :: "('k \<times> 'v) list \<Rightarrow> ('k \<times> 'v) list" where
  "mapFrom xs = foldl (\<lambda>m (k, v). AList.update k v m) [] xs"

text \<open>
  Modelled from the spec: \<^verbatim>\<open>bind\<close>, \<^verbatim>\<open>map\<close>, \<^verbatim>\<open>sort\<close>, \<^verbatim>\<open>by\<close> and \<^verbatim>\<open>partition\<close> of
  \<^verbatim>\<open>common/utils/data\<close> are not among the sources; they are read as flat-map, map, a
  stable ascending sort on the key, and the split into the entries that satisfy the
  predicate and those that do not.
\<close>

definition configEntries :: "TeamWithTabs list \<Rightarrow> (TabTuple \<times> ExtraData) list" where
  "configEntries servers =
     concat (map (\<lambda>x. map (\<lambda>t. ((team_url x, tab_name t), extraData x t))
                          (sort_key tab_order (team_tabs x))) servers)"

definition newOrRecycledEntry ::
  "(TabTuple \<times> MattermostView) list \<Rightarrow> TabTuple \<times> ExtraData \<Rightarrow> ViewManager
     \<Rightarrow> (TabTuple \<times> MattermostView) \<times> ViewManager" where
  "newOrRecycledEntry current e s =
     (case map_of current (fst e) of
        Some recycle \<Rightarrow>
          ((fst e, recycle\<lparr>serverInfo := ed_info (snd e), tab_server := ed_srv (snd e)\<rparr>), s)
      | None \<Rightarrow>
          (case makeView (ed_srv (snd e)) (ed_info (snd e)) (ed_tab (snd e)) (Some (fst (fst e))) s of
             (view, s1) \<Rightarrow> ((fst e, view), s1)))"

fun mapEntries ::
  "(TabTuple \<times> MattermostView) list \<Rightarrow> (TabTuple \<times> ExtraData) list \<Rightarrow> ViewManager
     \<Rightarrow> (TabTuple \<times> MattermostView) list \<times> ViewManager" where
  "mapEntries current [] s = ([], s)"
| "mapEntries current (e # es) s =
     (case newOrRecycledEntry current e s of
        (x, s1) \<Rightarrow> (case mapEntries current es s1 of (xs, s2) \<Rightarrow> (x # xs, s2)))"

definition destroyRemoved ::
  "(TabTuple \<times> MattermostView) list \<Rightarrow> (TabTuple \<times> MattermostView) list \<Rightarrow> ViewManager
     \<Rightarrow> ViewManager" where
  "destroyRemoved current newViews s =
     foldl (\<lambda>s (k, v). if map_of newViews k = None then emitEffect (ViewDestroy (surface v)) s else s)
       s current"

definition commitClosed :: "(TabTuple \<times> ExtraData) list \<Rightarrow> ViewManager \<Rightarrow> ViewManager" where
  "commitClosed closed s =
     s\<lparr>closedViews :=
         foldl (\<lambda>m (k, x). AList.update (ed_view x) (ed_srv x, ed_tab x, None) m) (closedViews s) closed\<rparr>"

definition focusedTupleOf :: "ViewManager \<Rightarrow> TabTuple option" where
  "focusedTupleOf s =
     (case currentView s of
        None \<Rightarrow> None
      | Some c \<Rightarrow> if c = [] then None else map_option view_tuple (map_of (views s) c))"

text \<open>
  The first part of \<^verbatim>\<open>reloadConfiguration\<close>, up to the two commits: the new views by
  tuple (recycled or made), the destruction of the views whose tuple is gone, the new
  \<^verbatim>\<open>this.views\<close> by name and the closed records. It returns the local map \<^verbatim>\<open>views\<close>
  with the state.
\<close>

definition currentByTuple :: "ViewManager \<Rightarrow> (TabTuple \<times> MattermostView) list" where
  "currentByTuple s = mapFrom (map (\<lambda>(n, x). (view_tuple x, x)) (views s))"

definition openEntries :: "TeamWithTabs list \<Rightarrow> (TabTuple \<times> ExtraData) list" where
  "openEntries servers = fst (partition (\<lambda>x. ed_open (snd x)) (configEntries servers))"

definition closedEntries :: "TeamWithTabs list \<Rightarrow> (TabTuple \<times> ExtraData) list" where
  "closedEntries servers = mapFrom (snd (partition (\<lambda>x. ed_open (snd x)) (configEntries servers)))"

definition commitConfiguration ::
  "TeamWithTabs list \<Rightarrow> ViewManager \<Rightarrow> (TabTuple \<times> MattermostView) list \<times> ViewManager" where
  "commitConfiguration servers s =
     (case mapEntries (currentByTuple s) (openEntries servers) s of
        (made, s1) \<Rightarrow>
          (let newViews = mapFrom made;
               s2 = destroyRemoved (currentByTuple s) newViews s1;
               s3 = s2\<lparr>views := mapFrom (map (\<lambda>(k, x). (view_name x, x)) newViews)\<rparr>
           in (newViews, commitClosed (closedEntries servers) s3)))"

text \<open>
  The second part: the focus. \<open>focusedTuple\<close>, \<open>current\<close> and \<open>closed\<close> were computed
  before the commits, \<open>newViews\<close> is the local map \<^verbatim>\<open>views\<close>.
\<close>

definition refocus ::
  "TeamWithTabs list \<Rightarrow> TabTuple option \<Rightarrow> (TabTuple \<times> MattermostView) list
     \<Rightarrow> (TabTuple \<times> ExtraData) list \<Rightarrow> (TabTuple \<times> MattermostView) list
     \<Rightarrow> ViewManager \<Rightarrow> ViewManager" where
  "refocus servers focusedTuple current closed newViews s =
     (case focusedTuple of
        None \<Rightarrow> showInitial s
      | Some t \<Rightarrow>
          (let s1 = (if map_of current t \<noteq> None \<or> map_of closed t \<noteq> None
                     then (if servers \<noteq> [] then showInitial (s\<lparr>currentView := None\<rparr>)
                           else emitEffect SendSetActiveViewNone s)
                     else s)
           in case map_of newViews t of
                None \<Rightarrow> showInitial s1
              | Some view \<Rightarrow>
                  showByName (view_name view) (s1\<lparr>currentView := Some (view_name view)\<rparr>)))"

definition reloadConfiguration :: "TeamWithTabs list \<Rightarrow> ViewManager \<Rightarrow> ViewManager" where
  "reloadConfiguration servers s =
     (case commitConfiguration servers s of
        (newViews, s1) \<Rightarrow>
          refocus servers (focusedTupleOf s) (currentByTuple s) (closedEntries servers) newViews s1)"

subsection \<open>The URL preview overlay\<close>

text \<open>
  Modelled from the spec: \<^verbatim>\<open>SECOND\<close> of \<^verbatim>\<open>common/utils/constants\<close> is not among the
  sources; the overlay "auto-dismisses after a fixed duration (10 seconds)" and
  \<^verbatim>\<open>setTimeout\<close> counts milliseconds.
\<close>

definition SECOND :: nat where
  "SECOND = 1000"

definition URL_VIEW_DURATION :: nat where
  "URL_VIEW_DURATION = 10 * SECOND"

text \<open>
  \<^verbatim>\<open>hideView\<close> and the cancel closure of the overlay \<open>i\<close>: the closure clears the
  overlay's timer, removes its width listener and hides it.
\<close>

definition hideView :: "nat \<Rightarrow> ViewManager \<Rightarrow> ViewManager" where
  "hideView i s =
     s\<lparr>urlViewCancel := None, urlOverlays := filter (\<lambda>(j, u). j \<noteq> i) (urlOverlays s)\<rparr>"

definition cancelURLView :: "nat \<Rightarrow> ViewManager \<Rightarrow> ViewManager" where
  "cancelURLView i s =
     hideView i (s\<lparr>timers := filter (\<lambda>(j, d). j \<noteq> i) (timers s),
                   widthListeners := remove1 i (widthListeners s)\<rparr>)"

definition showURLView :: "string \<Rightarrow> ViewManager \<Rightarrow> ViewManager" where
  "showURLView url s =
     (let s1 = (case urlViewCancel s of None \<Rightarrow> s | Some i \<Rightarrow> cancelURLView i s)
      in if url \<noteq> []
         then (let i = nextSurface s1
               in s1\<lparr>nextSurface := Suc i,
                     urlOverlays := urlOverlays s1 @ [(i, url)],
                     widthListeners := widthListeners s1 @ [i],
                     timers := timers s1 @ [(i, URL_VIEW_DURATION)],
                     urlViewCancel := Some i\<rparr>)
         else s1)"

text \<open>The timeout of overlay \<open>i\<close> expires: \<^verbatim>\<open>hideView\<close> runs, if the timer is still pending.\<close>

definition timerFires :: "nat \<Rightarrow> ViewManager \<Rightarrow> ViewManager" where
  "timerFires i s =
     (if i \<in> fst ` set (timers s)
      then hideView i (s\<lparr>timers := filter (\<lambda>(j, d). j \<noteq> i) (timers s)\<rparr>)
      else s)"

datatype urlEvent = ShowURL string | TimerFires nat

fun urlStep :: "ViewManager \<Rightarrow> urlEvent \<Rightarrow> ViewManager" where
  "urlStep s (ShowURL url) = showURLView url s"
| "urlStep s (TimerFires i) = timerFires i s"

subsection \<open>Deep links\<close>

text \<open>
  A parsed URL, with the parts that \<^verbatim>\<open>handleDeepLink\<close> reads, and the \<^verbatim>\<open>TabView\<close> that
  \<^verbatim>\<open>urlUtils.getView\<close> returns (its name and its URL).
\<close>

record URL =
  url_origin :: string
  url_pathname :: string
  url_search :: string
  url_href :: string

record TabViewRef =
  tv_name :: string
  tv_url :: string

text \<open>
  Modelled from the spec: \<^verbatim>\<open>Utils.isVersionGreaterThanOrEqualTo\<close> is not among the
  sources. The server's "reported version is \<open>\<ge>\<close> 6.0.0": the dotted versions are compared
  number by number, a missing number counting as 0.
\<close>

fun splitOn :: "char \<Rightarrow> string \<Rightarrow> string list" where
  "splitOn c [] = [[]]"
| "splitOn c (x # xs) =
     (if x = c then [] # splitOn c xs
      else (case splitOn c xs of [] \<Rightarrow> [[x]] | w # ws \<Rightarrow> (x # w) # ws))"

definition digitValue :: "char \<Rightarrow> nat option" where
  "digitValue c = map_of (zip ''0123456789'' [0..<10]) c"

definition isNumber :: "string \<Rightarrow> bool" where
  "isNumber w \<longleftrightarrow> w \<noteq> [] \<and> list_all (\<lambda>c. digitValue c \<noteq> None) w"

definition parseNumber :: "string \<Rightarrow> nat" where
  "parseNumber w = foldl (\<lambda>n c. 10 * n + (case digitValue c of None \<Rightarrow> 0 | Some d \<Rightarrow> d)) 0 w"

definition versionNumbers :: "string \<Rightarrow> nat list" where
  "versionNumbers v = map parseNumber (filter isNumber (splitOn CHR ''.'' v))"

fun versionsGE :: "nat list \<Rightarrow> nat list \<Rightarrow> bool" where
  "versionsGE [] [] = True"
| "versionsGE (a # as) [] = (if 0 < a then True else versionsGE as [])"
| "versionsGE [] (b # bs) = (if 0 < b then False else versionsGE [] bs)"
| "versionsGE (a # as) (b # bs) =
     (if b < a then True else if a < b then False else versionsGE as bs)"

definition isVersionGreaterThanOrEqualTo :: "string \<Rightarrow> string \<Rightarrow> bool" where
  "isVersionGreaterThanOrEqualTo currentVersion compareVersion \<longleftrightarrow>
     currentVersion = compareVersion
     \<or> versionsGE (versionNumbers currentVersion) (versionNumbers compareVersion)"

text \<open>\<^verbatim>\<open>String.prototype.replace\<close> with a string pattern: the first occurrence only.\<close>

fun replaceFirst :: "string \<Rightarrow> string \<Rightarrow> string \<Rightarrow> string" where
  "replaceFirst pat rep [] = (if pat = [] then rep else [])"
| "replaceFirst pat rep (c # cs) =
     (if take (length pat) (c # cs) = pat then rep @ drop (length pat) (c # cs)
      else c # replaceFirst pat rep cs)"

definition supportsHistoryPush :: "MattermostView \<Rightarrow> bool" where
  "supportsHistoryPush view \<longleftrightarrow>
     isInitialized view
     \<and> (case serverVersion (serverInfo view) of
          None \<Rightarrow> False
        | Some v \<Rightarrow> v \<noteq> [] \<and> isVersionGreaterThanOrEqualTo v ''6.0.0'')"

definition deepLinkReload :: "string \<Rightarrow> string \<Rightarrow> ViewManager \<Rightarrow> ViewManager" where
  "deepLinkReload key urlWithSchema s =
     (case map_of (views s) key of
        None \<Rightarrow> s
      | Some view \<Rightarrow>
          emitEffect (ViewLoad (surface view) (Some urlWithSchema))
            (s\<lparr>views := AList.map_entry key
                  (\<lambda>v. (view_load (view_resetLoadingStatus v))
                          \<lparr>onLoadSuccess := onLoadSuccess v @ [Once H_deeplinkSuccess],
                            onLoadFailed := onLoadFailed v @ [Once H_deeplinkFailed]\<rparr>)
                  (views s)\<rparr>))"

text \<open>
  \<^verbatim>\<open>handleDeepLink\<close>. \<^verbatim>\<open>urlUtils.parseURL\<close> and \<^verbatim>\<open>urlUtils.getView\<close> are not among the
  sources and are parameters. \<^verbatim>\<open>parseURL(url)!\<close> is used without a check, so a URL that
  does not parse is a \<^verbatim>\<open>TypeError\<close> at the first read of \<^verbatim>\<open>parsedURL\<close>; an origin that
  does not parse prints as \<^verbatim>\<open>undefined\<close> in the template string.
\<close>

definition urlWithSchema :: "(string \<Rightarrow> URL option) \<Rightarrow> TabViewRef \<Rightarrow> URL \<Rightarrow> string" where
  "urlWithSchema parseURL tabView parsedURL =
     (case parseURL (tv_url tabView) of None \<Rightarrow> ''undefined'' | Some u \<Rightarrow> url_origin u)
       @ url_pathname parsedURL @ url_search parsedURL"

definition historyPushPath :: "MattermostView \<Rightarrow> string \<Rightarrow> string" where
  "historyPushPath view target = ''/'' @ replaceFirst (srv_url (tab_server view)) [] target"

definition noMatchingServer :: "URL \<Rightarrow> effect" where
  "noMatchingServer parsedURL =
     ShowErrorBox ''No matching server''
       (''there is no configured server in the app that matches the requested url: ''
          @ url_href parsedURL)"

definition handleDeepLink ::
  "(string \<Rightarrow> URL option) \<Rightarrow> (URL \<Rightarrow> TeamWithTabs list \<Rightarrow> TabViewRef option) \<Rightarrow> string
     \<Rightarrow> ViewManager \<Rightarrow> error + ViewManager" where
  "handleDeepLink parseURL getView url s =
     (if url = [] then Inr s
      else (case parseURL url of
              None \<Rightarrow> Inl TypeError
            | Some parsedURL \<Rightarrow>
                (case getView parsedURL (configServers s) of
                   None \<Rightarrow> Inr (emitEffect (noMatchingServer parsedURL) s)
                 | Some tabView \<Rightarrow>
                     if map_of (closedViews s) (tv_name tabView) \<noteq> None
                     then openClosedTab (tv_name tabView)
                            (Some (urlWithSchema parseURL tabView parsedURL)) s
                     else (case map_of (views s) (tv_name tabView) of
                             None \<Rightarrow> Inr s
                           | Some view \<Rightarrow>
                               if supportsHistoryPush view
                               then Inr (deeplinkSuccess (view_name view)
                                      (emitEffect
                                         (SendHistoryPush (surface view)
                                            (historyPushPath view
                                               (urlWithSchema parseURL tabView parsedURL)))
                                         s))
                               else Inr (deepLinkReload (tv_name tabView)
                                           (urlWithSchema parseURL tabView parsedURL) s)))))"

section \<open>Invariants and example states\<close>

text \<open>
  The views are stored under distinct keys, each under its own derived name, and a
  visible view is the current one.
\<close>

definition activeInv :: "ViewManager \<Rightarrow> bool" where
  "activeInv s \<longleftrightarrow>
     distinct (map fst (views s)) \<and>
     list_all (\<lambda>(n, v). n = view_name v) (views s) \<and>
     list_all (\<lambda>(n, v). isVisible v \<longrightarrow> currentView s = Some n) (views s)"

definition visibleViews :: "ViewManager \<Rightarrow> (string \<times> MattermostView) list" where
  "visibleViews s = filter (\<lambda>(n, v). isVisible v) (views s)"

definition visibility :: "ViewManager \<Rightarrow> (string \<times> bool) list" where
  "visibility s = map (\<lambda>(n, v). (n, isVisible v)) (views s)"

definition exTeamA :: TeamWithTabs where
  "exTeamA =
     \<lparr>team_name = ''A'', team_url = ''https://a.example.com/'', team_order = 0,
      team_tabs = [\<lparr>tab_name = TAB_MESSAGING, tab_order = 0, tab_isOpen = True\<rparr>,
                   \<lparr>tab_name = TAB_FOCALBOARD, tab_order = 1, tab_isOpen = True\<rparr>],
      team_lastActiveTab = Some 0\<rparr>"

definition exSrvA :: MattermostServer where
  "exSrvA = newMattermostServer ''A'' ''https://a.example.com/''"

definition exViewMsg :: MattermostView where
  "exViewMsg = (newMattermostView 0 exSrvA TAB_MESSAGING (newServerInfo exSrvA))
     \<lparr>isVisible := True, status := Ready, loadedOnce := True\<rparr>"

definition exViewBoard :: MattermostView where
  "exViewBoard = newMattermostView 1 exSrvA TAB_FOCALBOARD (newServerInfo exSrvA)"

definition exViewBoardErrored :: MattermostView where
  "exViewBoardErrored = exViewBoard\<lparr>status := Errored\<rparr>"

text \<open>Messaging is shown and current, the board tab is hidden.\<close>

definition exState :: ViewManager where
  "exState = (newViewManager [exTeamA] (Some 0))
     \<lparr>views := [(''A:TAB_MESSAGING'', exViewMsg), (''A:TAB_FOCALBOARD'', exViewBoard)],
      currentView := Some ''A:TAB_MESSAGING'', loadingScreen := True, nextSurface := 2\<rparr>"

text \<open>The same, with the board tab's load failed.\<close>

definition exStateErrored :: ViewManager where
  "exStateErrored = exState
     \<lparr>views := [(''A:TAB_MESSAGING'', exViewMsg), (''A:TAB_FOCALBOARD'', exViewBoardErrored)]\<rparr>"

text \<open>
  No overlay, no timer and no cancel closure; or one overlay, its timer pending, and
  the cancel closure of that overlay.
\<close>

definition urlInv :: "ViewManager \<Rightarrow> bool" where
  "urlInv s \<longleftrightarrow>
     (case urlViewCancel s of
        None \<Rightarrow> urlOverlays s = [] \<and> timers s = []
      | Some i \<Rightarrow> map fst (urlOverlays s) = [i] \<and> timers s = [(i, URL_VIEW_DURATION)])"

definition exFresh :: ViewManager where
  "exFresh = newViewManager [exTeamA] (Some 0)"

definition exOverlay :: ViewManager where
  "exOverlay = showURLView ''https://a.example.com/one'' exFresh"

text \<open>The full reloads among the effects, and the listeners of every view.\<close>

definition viewLoads :: "effect list \<Rightarrow> effect list" where
  "viewLoads es = filter (\<lambda>e. case e of ViewLoad i u \<Rightarrow> True | _ \<Rightarrow> False) es"

definition listenerLists :: "ViewManager \<Rightarrow> (string \<times> listener list \<times> listener list) list" where
  "listenerLists s = map (\<lambda>(k, v). (k, onLoadSuccess v, onLoadFailed v)) (views s)"

text \<open>How many of the listeners call the handler \<open>h\<close>.\<close>

definition countHandler :: "handler \<Rightarrow> listener list \<Rightarrow> nat" where
  "countHandler h ls = length (filter (\<lambda>l. handler_of l = h) ls)"

text \<open>A resolver for the examples: deep links into server A resolve to its messaging tab.\<close>

definition exParseURL :: "string \<Rightarrow> URL option" where
  "exParseURL u =
     (if u = ''https://a.example.com/''
      then Some \<lparr>url_origin = ''https://a.example.com'', url_pathname = ''/'', url_search = [],
                 url_href = u\<rparr>
      else if u = ''mattermost://a.example.com/team/channels/town''
      then Some \<lparr>url_origin = ''null'', url_pathname = ''/team/channels/town'', url_search = [],
                 url_href = u\<rparr>
      else if u = ''mattermost://b.example.com/team''
      then Some \<lparr>url_origin = ''null'', url_pathname = ''/team'', url_search = [], url_href = u\<rparr>
      else None)"

definition exGetView :: "URL \<Rightarrow> TeamWithTabs list \<Rightarrow> TabViewRef option" where
  "exGetView p servers =
     (if take 24 (url_href p) = ''mattermost://a.example.c''
      then Some \<lparr>tv_name = ''A:TAB_MESSAGING'', tv_url = ''https://a.example.com/''\<rparr>
      else None)"

definition exViewMsgV :: "string \<Rightarrow> MattermostView" where
  "exViewMsgV ver = exViewMsg
     \<lparr>initialized := True, serverInfo := (newServerInfo exSrvA)\<lparr>serverVersion := Some ver\<rparr>,
      onLoadFailed := [On H_failLoading]\<rparr>"

definition exStateV :: "string \<Rightarrow> ViewManager" where
  "exStateV ver = exState
     \<lparr>views := [(''A:TAB_MESSAGING'', exViewMsgV ver), (''A:TAB_FOCALBOARD'', exViewBoard)]\<rparr>"

definition exDeepLink :: string where
  "exDeepLink = ''mattermost://a.example.com/team/channels/town''"

definition exParsed :: URL where
  "exParsed = \<lparr>url_origin = ''null'', url_pathname = ''/team/channels/town'', url_search = [],
                url_href = ''mattermost://a.example.com/team/channels/town''\<rparr>"

definition exTab :: TabViewRef where
  "exTab = \<lparr>tv_name = ''A:TAB_MESSAGING'', tv_url = ''https://a.example.com/''\<rparr>"

text \<open>The view that \<^verbatim>\<open>makeView\<close> creates, with the surface \<open>i\<close>.\<close>

definition madeView :: "nat \<Rightarrow> MattermostServer \<Rightarrow> ServerInfo \<Rightarrow> Tab \<Rightarrow> MattermostView" where
  "madeView i srv info tab =
     view_load ((newMattermostView i srv (tab_name tab) info)
       \<lparr>onLoadSuccess := [Once H_activateView], onLoadFailed := [On H_failLoading]\<rparr>)"

text \<open>
  Server A with the board tab closed, loaded: messaging is shown and the board tab has a
  closed-view record, whose \<^verbatim>\<open>Tab\<close> is the second tab of the first server of
  \<^verbatim>\<open>this.configServers\<close>. Then the board tab is reopened.
\<close>

definition exTabs :: "bool \<Rightarrow> bool \<Rightarrow> Tab list" where
  "exTabs m b = [\<lparr>tab_name = TAB_MESSAGING, tab_order = 0, tab_isOpen = m\<rparr>,
                 \<lparr>tab_name = TAB_FOCALBOARD, tab_order = 1, tab_isOpen = b\<rparr>]"

definition exTeam :: "string \<Rightarrow> string \<Rightarrow> int \<Rightarrow> Tab list \<Rightarrow> TeamWithTabs" where
  "exTeam n u ord tabs =
     \<lparr>team_name = n, team_url = u, team_order = ord, team_tabs = tabs, team_lastActiveTab = Some 0\<rparr>"

definition exTabBoardClosed :: Tab where
  "exTabBoardClosed = \<lparr>tab_name = TAB_FOCALBOARD, tab_order = 1, tab_isOpen = False\<rparr>"

definition exConfigBoardClosed :: "TeamWithTabs list" where
  "exConfigBoardClosed = [exTeam ''A'' ''https://a.example.com/'' 0 (exTabs True False)]"

definition exStateClosed :: ViewManager where
  "exStateClosed = showInitial (load (newViewManager exConfigBoardClosed (Some 0)))"

definition exReopened :: ViewManager where
  "exReopened =
     (case openClosedTab ''A:TAB_FOCALBOARD'' None exStateClosed of
        Inl e \<Rightarrow> exStateClosed
      | Inr s \<Rightarrow> s)"

text \<open>
  An entry of the new configuration carries the tuple and the view name of its own
  server and tab; a map by tuple holds every view under its own tuple.
\<close>

definition wfEntry :: "TabTuple \<times> ExtraData \<Rightarrow> bool" where
  "wfEntry e \<longleftrightarrow>
     fst e = (srv_url (ed_srv (snd e)), tab_name (ed_tab (snd e)))
     \<and> ed_view (snd e) = getTabViewName (srv_name (ed_srv (snd e))) (tab_name (ed_tab (snd e)))"

definition tupleKeyed :: "(TabTuple \<times> MattermostView) list \<Rightarrow> bool" where
  "tupleKeyed m \<longleftrightarrow> list_all (\<lambda>(t, v). view_tuple v = t) m"

text \<open>\<^verbatim>\<open>currentView\<close> is unset or names a view of \<^verbatim>\<open>views\<close>.\<close>

definition currentIsLive :: "ViewManager \<Rightarrow> bool" where
  "currentIsLive s \<longleftrightarrow> (case currentView s of None \<Rightarrow> True | Some c \<Rightarrow> c \<in> fst ` set (views s))"

text \<open>The views without their visibility.\<close>

definition viewCores :: "ViewManager \<Rightarrow> (string \<times> MattermostView) list" where
  "viewCores s = map (\<lambda>(n, v). (n, v\<lparr>isVisible := False\<rparr>)) (views s)"

text \<open>
  No two open tabs of the configuration with different tuples have the same view name
  (server names are unique).
\<close>

definition namesIdentifyKeys :: "TeamWithTabs list \<Rightarrow> bool" where
  "namesIdentifyKeys servers \<longleftrightarrow>
     list_all (\<lambda>e. list_all (\<lambda>e'. ed_view (snd e) = ed_view (snd e') \<longrightarrow> fst e = fst e')
                 (openEntries servers)) (openEntries servers)"

text \<open>
  Two servers A and B; B's board tab is closed. Then B is removed and A is renamed to B.
\<close>

definition exConfigAB :: "TeamWithTabs list" where
  "exConfigAB = [exTeam ''A'' ''https://a.example.com/'' 0 (exTabs True True),
                 exTeam ''B'' ''https://b.example.com/'' 1 (exTabs True False)]"

definition exConfigRenamed :: "TeamWithTabs list" where
  "exConfigRenamed = [exTeam ''B'' ''https://a.example.com/'' 0 (exTabs True True)]"

definition exLoadedAB :: ViewManager where
  "exLoadedAB = showInitial (load (newViewManager exConfigAB (Some 0)))"

definition exActive :: MattermostView where
  "exActive =
     (madeView 0 (newMattermostServer ''A'' ''https://a.example.com/'')
        (newServerInfo (newMattermostServer ''A'' ''https://a.example.com/''))
        \<lparr>tab_name = TAB_MESSAGING, tab_order = 0, tab_isOpen = True\<rparr>)
     \<lparr>isVisible := True\<rparr>"

text \<open>
  The state holds the live-view set of a configuration: one view for every open tab,
  each stored under its own name, with the tab's tuple, and no two views with the same
  tuple.
\<close>

definition liveFor :: "TeamWithTabs list \<Rightarrow> ViewManager \<Rightarrow> bool" where
  "liveFor servers s \<longleftrightarrow>
     distinct (map fst (views s))
     \<and> list_all (\<lambda>(n, v). n = view_name v) (views s)
     \<and> distinct (map (\<lambda>(n, v). view_tuple v) (views s))
     \<and> set (map (\<lambda>(n, v). (view_tuple v, n)) (views s))
         = set (map (\<lambda>e. (fst e, ed_view (snd e))) (openEntries servers))"

text \<open>
  Two configurations that differ only in the \<^verbatim>\<open>order\<close> values (and in
  \<^verbatim>\<open>lastActiveTab\<close>, which refers to one).
\<close>

definition sameTabs :: "Tab list \<Rightarrow> Tab list \<Rightarrow> bool" where
  "sameTabs ts us \<longleftrightarrow> list_all2 (\<lambda>t u. tab_name t = tab_name u \<and> tab_isOpen t = tab_isOpen u) ts us"

definition sameUpToOrder :: "TeamWithTabs list \<Rightarrow> TeamWithTabs list \<Rightarrow> bool" where
  "sameUpToOrder c1 c2 \<longleftrightarrow>
     list_all2 (\<lambda>a b. team_name a = team_name b \<and> team_url a = team_url b
                  \<and> sameTabs (team_tabs a) (team_tabs b)) c1 c2"

text \<open>The loads and destructions of surfaces among the effects.\<close>

definition surfaceEffects :: "effect list \<Rightarrow> effect list" where
  "surfaceEffects es =
     filter (\<lambda>e. case e of ViewLoad i u \<Rightarrow> True | ViewDestroy i \<Rightarrow> True | _ \<Rightarrow> False) es"

text \<open>The tuples and view names of the open tabs of one server.\<close>

definition openPairs :: "TeamWithTabs \<Rightarrow> (TabTuple \<times> string) set" where
  "openPairs x =
     (\<lambda>t. ((team_url x, tab_name t), getTabViewName (team_name x) (tab_name t)))
       ` {t \<in> set (team_tabs x). tab_isOpen t}"

text \<open>A recycled view whose server kept its name and URL: only the \<^verbatim>\<open>ServerInfo\<close> is new.\<close>

definition refreshed :: "MattermostView \<Rightarrow> MattermostView" where
  "refreshed v = v\<lparr>serverInfo := newServerInfo (tab_server v)\<rparr>"

definition exConfigABReordered :: "TeamWithTabs list" where
  "exConfigABReordered =
     [\<lparr>team_name = ''A'', team_url = ''https://a.example.com/'', team_order = 1,
       team_tabs = [\<lparr>tab_name = TAB_MESSAGING, tab_order = 1, tab_isOpen = True\<rparr>,
                    \<lparr>tab_name = TAB_FOCALBOARD, tab_order = 0, tab_isOpen = True\<rparr>],
       team_lastActiveTab = Some 1\<rparr>,
      \<lparr>team_name = ''B'', team_url = ''https://b.example.com/'', team_order = 0,
       team_tabs = [\<lparr>tab_name = TAB_MESSAGING, tab_order = 0, tab_isOpen = True\<rparr>,
                    \<lparr>tab_name = TAB_FOCALBOARD, tab_order = 1, tab_isOpen = False\<rparr>],
       team_lastActiveTab = Some 0\<rparr>]"

text \<open>
  Server A with both tabs open, loaded, messaging shown; then the messaging tab is
  closed in the configuration.
\<close>

definition exConfigA :: "TeamWithTabs list" where
  "exConfigA = [exTeam ''A'' ''https://a.example.com/'' 0 (exTabs True True)]"

definition exConfigAMsgClosed :: "TeamWithTabs list" where
  "exConfigAMsgClosed = [exTeam ''A'' ''https://a.example.com/'' 0 (exTabs False True)]"

definition exLoadedA :: ViewManager where
  "exLoadedA = showInitial (load (newViewManager exConfigA (Some 0)))"

text \<open>
  The state after server B is removed and server A renamed to B: the board view of the
  renamed server and the closed-view record of the removed one have the same name. The
  board view has then loaded, been initialized, and its server has reported version
  6.0.0. A deep link to a board of \<^verbatim>\<open>b.example.com\<close> is resolved against
  \<^verbatim>\<open>this.configServers\<close>.
\<close>

definition exOverlap :: ViewManager where
  "exOverlap =
     (let s = reloadConfiguration exConfigRenamed exLoadedAB
      in s\<lparr>views := AList.map_entry ''B:TAB_FOCALBOARD''
                (\<lambda>v. v\<lparr>status := Ready, loadedOnce := True, initialized := True,
                        serverInfo := (serverInfo v)\<lparr>serverVersion := Some ''6.0.0''\<rparr>\<rparr>)
                (views s)\<rparr>)"

definition exParseBoard :: "string \<Rightarrow> URL option" where
  "exParseBoard u =
     (if u = ''https://b.example.com/boards''
      then Some \<lparr>url_origin = ''https://b.example.com'', url_pathname = ''/boards'',
                 url_search = [], url_href = u\<rparr>
      else if u = ''mattermost://b.example.com/boards/team''
      then Some \<lparr>url_origin = ''null'', url_pathname = ''/boards/team'', url_search = [],
                 url_href = u\<rparr>
      else None)"

definition exGetBoard :: "URL \<Rightarrow> TeamWithTabs list \<Rightarrow> TabViewRef option" where
  "exGetBoard p servers =
     (case find (\<lambda>x. team_url x = ''https://b.example.com/'') servers of
        None \<Rightarrow> None
      | Some x \<Rightarrow> Some \<lparr>tv_name = getTabViewName (team_name x) TAB_FOCALBOARD,
                         tv_url = ''https://b.example.com/boards''\<rparr>)"

definition exOverlapLinked :: ViewManager where
  "exOverlapLinked =
     (case handleDeepLink exParseBoard exGetBoard ''mattermost://b.example.com/boards/team'' exOverlap of
        Inl e \<Rightarrow> exOverlap
      | Inr s \<Rightarrow> s)"

text \<open>No name is at once the key of a live view and the key of a closed-tab record.\<close>

definition disjointKeys :: "ViewManager \<Rightarrow> bool" where
  "disjointKeys s \<longleftrightarrow> list_all (\<lambda>k. k \<notin> set (map fst (closedViews s))) (map fst (views s))"

section \<open>Properties\<close>

subsection \<open>Showing a view by name\<close>

lemma view_name_nonempty: "view_name v \<noteq> []"
  by (simp add: view_name_def getTabViewName_def)

lemma set_map_entry:
  "distinct (map fst al) \<Longrightarrow>
   set (AList.map_entry k f al) = {(n, v). n \<noteq> k \<and> (n, v) \<in> set al} \<union> {(k, f w) | w. (k, w) \<in> set al}"
  by (induction al) (auto simp: rev_image_eqI)

lemma keys_map_entry [simp]: "map fst (AList.map_entry k f al) = map fst al"
  by (induction al) auto

lemma view_name_show [simp]: "view_name (view_show v) = view_name v"
  by (simp add: view_name_def view_show_def)

lemma view_name_hide [simp]: "view_name (view_hide v) = view_name v"
  by (simp add: view_name_def view_hide_def)

lemma isVisible_hide [simp]: "\<not> isVisible (view_hide v)"
  by (simp add: view_hide_def)

lemma views_showLoadingScreen [simp]: "views (showLoadingScreen s) = views s"
  and currentView_showLoadingScreen [simp]: "currentView (showLoadingScreen s) = currentView s"
  by (simp_all add: showLoadingScreen_def emitEffect_def)

lemma views_emitEffect [simp]: "views (emitEffect e s) = views s"
  and currentView_emitEffect [simp]: "currentView (emitEffect e s) = currentView s"
  by (simp_all add: emitEffect_def)

lemma views_notifyActive [simp]: "views (notifyActive w s) = views s"
  and currentView_notifyActive [simp]: "currentView (notifyActive w s) = currentView s"
  by (simp_all add: notifyActive_def Let_def)

lemma views_setCurrent [simp]: "views (setCurrent n s) = views s"
  and currentView_setCurrent [simp]: "currentView (setCurrent n s) = Some n"
  by (simp_all add: setCurrent_def)

lemma keys_hidePrevious [simp]: "map fst (views (hidePrevious name s)) = map fst (views s)"
  by (simp add: hidePrevious_def split: option.splits)

lemma keys_showTarget [simp]: "map fst (views (showTarget name w s)) = map fst (views s)"
  by (simp add: showTarget_def Let_def)

lemma keyed_hidePrevious:
  assumes "distinct (map fst (views s))" "list_all (\<lambda>(n, v). n = view_name v) (views s)"
  shows "list_all (\<lambda>(n, v). n = view_name v) (views (hidePrevious name s))"
  using assms by (auto simp: hidePrevious_def list_all_iff set_map_entry split: option.splits)

lemma keyed_showTarget:
  assumes "distinct (map fst (views s))" "list_all (\<lambda>(n, v). n = view_name v) (views s)"
  shows "list_all (\<lambda>(n, v). n = view_name v) (views (showTarget name w s))"
  using assms by (auto simp: showTarget_def Let_def list_all_iff set_map_entry)

lemma hidePrevious_none_visible:
  assumes inv: "activeInv s" and tgt: "map_of (views s) name = Some w" and hid: "\<not> isVisible w"
  shows "list_all (\<lambda>(n, v). \<not> isVisible v) (views (hidePrevious name s))"
proof -
  have d: "distinct (map fst (views s))" using inv by (simp add: activeInv_def)
  have vis: "\<And>n v. (n, v) \<in> set (views s) \<Longrightarrow> isVisible v \<Longrightarrow> currentView s = Some n"
    using inv by (auto simp: activeInv_def list_all_iff)
  have nonempty: "\<And>n v. (n, v) \<in> set (views s) \<Longrightarrow> n \<noteq> []"
  proof -
    fix n v assume "(n, v) \<in> set (views s)"
    then have "n = view_name v" using inv by (auto simp: activeInv_def list_all_iff)
    then show "n \<noteq> []" by (simp add: view_name_nonempty)
  qed
  have tgt_in: "\<And>v. (name, v) \<in> set (views s) \<Longrightarrow> v = w"
    using d tgt by simp
  show ?thesis
  proof (cases "currentView s")
    case None
    then show ?thesis using vis by (auto simp: hidePrevious_def list_all_iff)
  next
    case (Some c)
    show ?thesis
    proof (cases "c = [] \<or> c = name")
      case True
      have eq: "hidePrevious name s = s"
        using Some True by (auto simp: hidePrevious_def)
      have "\<not> isVisible v" if "(n, v) \<in> set (views s)" for n v
      proof
        assume "isVisible v"
        then have "n = c" using vis [OF that] Some by simp
        then have "n = name" using True nonempty [OF that] by auto
        then show False using tgt_in that hid \<open>isVisible v\<close> by auto
      qed
      then show ?thesis unfolding eq by (auto simp: list_all_iff)
    next
      case False
      show ?thesis
      proof (cases "map_of (views s) c")
        case None
        have eq: "hidePrevious name s = s"
          using \<open>currentView s = Some c\<close> False None by (simp add: hidePrevious_def)
        have "\<not> isVisible v" if "(n, v) \<in> set (views s)" for n v
        proof
          assume "isVisible v"
          then have "n = c" using vis [OF that] \<open>currentView s = Some c\<close> by simp
          then have "c \<in> fst ` set (views s)" using that by force
          then show False using None by (simp add: map_of_eq_None_iff)
        qed
        then show ?thesis unfolding eq by (auto simp: list_all_iff)
      next
        case (Some p)
        have eq: "views (hidePrevious name s) = AList.map_entry c view_hide (views s)"
          using \<open>currentView s = Some c\<close> False Some by (simp add: hidePrevious_def)
        have "\<not> isVisible v" if "(n, v) \<in> set (AList.map_entry c view_hide (views s))" for n v
        proof (cases "n = c")
          case True
          then show ?thesis using that d by (auto simp: set_map_entry)
        next
          case False
          then have "(n, v) \<in> set (views s)" using that d by (auto simp: set_map_entry)
          then show ?thesis using vis \<open>currentView s = Some c\<close> False by auto
        qed
        then show ?thesis unfolding eq by (auto simp: list_all_iff)
      qed
    qed
  qed
qed

lemma activeInv_showByName:
  assumes inv: "activeInv s"
  shows "activeInv (showByName name s)"
proof (cases "map_of (views s) name")
  case None
  then show ?thesis using inv by (simp add: showByName_def activeInv_def)
next
  case (Some w)
  show ?thesis
  proof (cases "isVisible w")
    case True
    then show ?thesis using inv Some by (simp add: showByName_def)
  next
    case False
    let ?h = "hidePrevious name s"
    have d: "distinct (map fst (views s))" using inv by (simp add: activeInv_def)
    have k: "list_all (\<lambda>(n, v). n = view_name v) (views s)" using inv by (simp add: activeInv_def)
    have nv: "list_all (\<lambda>(n, v). \<not> isVisible v) (views ?h)"
      by (rule hidePrevious_none_visible [OF inv Some False])
    have dh: "distinct (map fst (views ?h))" using d by simp
    have kh: "list_all (\<lambda>(n, v). n = view_name v) (views (setCurrent name ?h))"
      using keyed_hidePrevious [OF d k] by simp
    have eq: "showByName name s = notifyActive w (showTarget name w (setCurrent name ?h))"
      using Some False by (simp add: showByName_def)
    have "list_all (\<lambda>(n, v). isVisible v \<longrightarrow> n = name) (views (showTarget name w (setCurrent name ?h)))"
      using nv dh by (auto simp: showTarget_def Let_def list_all_iff set_map_entry)
    moreover have "currentView (showTarget name w (setCurrent name ?h)) = Some name"
      by (simp add: showTarget_def Let_def)
    moreover have "list_all (\<lambda>(n, v). n = view_name v) (views (showTarget name w (setCurrent name ?h)))"
      using keyed_showTarget [of "setCurrent name ?h"] dh kh by simp
    ultimately show ?thesis using d
      unfolding eq activeInv_def by (auto simp: list_all_iff)
  qed
qed

lemma activeInv_fold:
  "activeInv s \<Longrightarrow> activeInv (foldl (\<lambda>s n. showByName n s) s names)"
proof (induction names arbitrary: s)
  case Nil
  then show ?case by simp
next
  case (Cons a names)
  have "activeInv (showByName a s)" using Cons.prems by (rule activeInv_showByName)
  then have "activeInv (foldl (\<lambda>s n. showByName n s) (showByName a s) names)" by (rule Cons.IH)
  then show ?case by simp
qed

lemma same_key_short:
  assumes "distinct (map fst xs)" "\<forall>x \<in> set xs. fst x = k"
  shows "length xs \<le> 1"
proof (cases xs)
  case Nil
  then show ?thesis by simp
next
  case (Cons a ys)
  have "ys = []"
  proof (cases ys)
    case Nil
    then show ?thesis .
  next
    case (Cons b zs)
    have "fst a \<noteq> fst b" using assms(1) \<open>xs = a # ys\<close> Cons by simp
    moreover have "fst a = k" "fst b = k" using assms(2) \<open>xs = a # ys\<close> Cons by simp_all
    ultimately show ?thesis by simp
  qed
  then show ?thesis using Cons by simp
qed

lemma activeInv_at_most_one:
  assumes "activeInv s"
  shows "length (visibleViews s) \<le> 1"
proof -
  have d: "distinct (map fst (visibleViews s))"
    using assms by (simp add: activeInv_def visibleViews_def distinct_map_filter)
  have cur: "\<forall>x \<in> set (visibleViews s). currentView s = Some (fst x)"
    using assms by (auto simp: activeInv_def visibleViews_def list_all_iff)
  show ?thesis
  proof (cases "currentView s")
    case None
    then have "visibleViews s = []" using cur by (cases "visibleViews s") auto
    then show ?thesis by simp
  next
    case (Some c)
    then have "\<forall>x \<in> set (visibleViews s). fst x = c" using cur by simp
    then show ?thesis using d by (rule_tac same_key_short)
  qed
qed

lemma map_of_hidePrevious:
  "map_of (views (hidePrevious name s)) m =
     (if currentView s = Some m \<and> m \<noteq> [] \<and> m \<noteq> name
      then map_option view_hide (map_of (views s) m) else map_of (views s) m)"
  by (auto simp: hidePrevious_def map_of_map_entry split: option.splits)

lemma map_of_showTarget:
  "map_of (views (showTarget name w s)) m =
     (if m = name \<and> \<not> isErrored w
      then map_option view_show (map_of (views s) m) else map_of (views s) m)"
  by (auto simp: showTarget_def Let_def map_of_map_entry split: option.splits)

lemma showByName_hidden_target:
  assumes "map_of (views s) n = Some v" "\<not> isVisible v"
  shows "showByName n s = notifyActive v (showTarget n v (setCurrent n (hidePrevious n s)))"
  using assms by (simp add: showByName_def)

lemma view_show_not_errored: "\<not> isErrored v \<Longrightarrow> view_show v = v\<lparr>isVisible := True\<rparr>"
  by (simp add: view_show_def)

text \<open>
  C2. Starting where every visible view is the current one (as after construction and
  \<^verbatim>\<open>load\<close>, when no view is visible), any sequence of \<^verbatim>\<open>showByName\<close> calls leaves at
  most one view of \<^verbatim>\<open>views\<close> visible. A call whose target is already visible changes
  nothing at all. A call whose target is hidden and differs from the current view runs
  its steps in this order: the previously active view is hidden first (the target is
  still untouched then), the target becomes current and is shown afterwards.
\<close>

theorem showByName_at_most_one_active:
  assumes "activeInv s"
  shows "length (visibleViews (foldl (\<lambda>s n. showByName n s) s names)) \<le> 1
       \<and> (\<forall>n v. map_of (views s) n = Some v \<and> isVisible v \<longrightarrow> showByName n s = s)
       \<and> (\<forall>n v c p. map_of (views s) n = Some v \<and> \<not> isVisible v
              \<and> currentView s = Some c \<and> c \<noteq> n \<and> map_of (views s) c = Some p \<longrightarrow>
            showByName n s = notifyActive v (showTarget n v (setCurrent n (hidePrevious n s)))
          \<and> map_of (views (hidePrevious n s)) c = Some (view_hide p)
          \<and> map_of (views (hidePrevious n s)) n = Some v
          \<and> map_of (views (showByName n s)) c = Some (view_hide p)
          \<and> map_of (views (showByName n s)) n = Some (view_show v)
          \<and> currentView (showByName n s) = Some n)"
proof (intro conjI allI impI)
  show "length (visibleViews (foldl (\<lambda>s n. showByName n s) s names)) \<le> 1"
    using assms by (intro activeInv_at_most_one activeInv_fold)
next
  fix n v
  assume "map_of (views s) n = Some v \<and> isVisible v"
  then show "showByName n s = s" by (simp add: showByName_def)
next
  fix n v c p
  assume h: "map_of (views s) n = Some v \<and> \<not> isVisible v
    \<and> currentView s = Some c \<and> c \<noteq> n \<and> map_of (views s) c = Some p"
  then have "(c, p) \<in> set (views s)" by (simp add: map_of_SomeD)
  then have "c = view_name p" using assms by (auto simp: activeInv_def list_all_iff)
  then have c: "c \<noteq> []" by (simp add: view_name_nonempty)
  show eq: "showByName n s = notifyActive v (showTarget n v (setCurrent n (hidePrevious n s)))"
    using h by (simp add: showByName_hidden_target)
  show "map_of (views (hidePrevious n s)) c = Some (view_hide p)"
    using h c by (simp add: map_of_hidePrevious)
  show "map_of (views (hidePrevious n s)) n = Some v"
    using h by (simp add: map_of_hidePrevious)
  show "map_of (views (showByName n s)) c = Some (view_hide p)"
    unfolding eq using h c by (simp add: map_of_showTarget map_of_hidePrevious)
  show "map_of (views (showByName n s)) n = Some (view_show v)"
    unfolding eq using h by (simp add: map_of_showTarget map_of_hidePrevious view_show_def)
  show "currentView (showByName n s) = Some n"
    unfolding eq by (simp add: showTarget_def Let_def)
qed

theorem showByName_at_most_one_active_witness:
  "activeInv exState
   \<and> length (visibleViews (foldl (\<lambda>s n. showByName n s) exState
        [''A:TAB_FOCALBOARD'', ''A:TAB_MESSAGING'', ''A:TAB_FOCALBOARD''])) \<le> 1
   \<and> map_of (views exState) ''A:TAB_MESSAGING'' = Some exViewMsg \<and> isVisible exViewMsg
   \<and> showByName ''A:TAB_MESSAGING'' exState = exState
   \<and> map_of (views exState) ''A:TAB_FOCALBOARD'' = Some exViewBoard \<and> \<not> isVisible exViewBoard
   \<and> currentView exState = Some ''A:TAB_MESSAGING''
   \<and> map_of (views (hidePrevious ''A:TAB_FOCALBOARD'' exState)) ''A:TAB_MESSAGING''
        = Some (view_hide exViewMsg)
   \<and> map_of (views (showByName ''A:TAB_FOCALBOARD'' exState)) ''A:TAB_FOCALBOARD''
        = Some (view_show exViewBoard)"
proof -
  have inv: "activeInv exState" by code_simp
  have a: "map_of (views exState) ''A:TAB_MESSAGING'' = Some exViewMsg \<and> isVisible exViewMsg"
    by code_simp
  have b: "map_of (views exState) ''A:TAB_FOCALBOARD'' = Some exViewBoard
      \<and> \<not> isVisible exViewBoard \<and> currentView exState = Some ''A:TAB_MESSAGING''
      \<and> ''A:TAB_MESSAGING'' \<noteq> ''A:TAB_FOCALBOARD''
      \<and> map_of (views exState) ''A:TAB_MESSAGING'' = Some exViewMsg"
    by code_simp
  note t = showByName_at_most_one_active [OF inv,
      of "[''A:TAB_FOCALBOARD'', ''A:TAB_MESSAGING'', ''A:TAB_FOCALBOARD'']"]
  from t have "length (visibleViews (foldl (\<lambda>s n. showByName n s) exState
        [''A:TAB_FOCALBOARD'', ''A:TAB_MESSAGING'', ''A:TAB_FOCALBOARD''])) \<le> 1"
    by (rule conjunct1)
  moreover from t a have "showByName ''A:TAB_MESSAGING'' exState = exState" by blast
  moreover from t b have
    "map_of (views (hidePrevious ''A:TAB_FOCALBOARD'' exState)) ''A:TAB_MESSAGING''
        = Some (view_hide exViewMsg)
     \<and> map_of (views (showByName ''A:TAB_FOCALBOARD'' exState)) ''A:TAB_FOCALBOARD''
        = Some (view_show exViewBoard)"
    by blast
  ultimately show ?thesis using inv a b by blast
qed

subsection \<open>Errored views\<close>

lemma showByName_errored_views:
  assumes "map_of (views s) n = Some v" "isErrored v"
  shows "views (showByName n s) = (if isVisible v then views s else views (hidePrevious n s))"
  using assms by (simp add: showByName_def showTarget_def)

text \<open>
  C5, as stated, fails: with messaging shown and current and the board tab errored,
  \<^verbatim>\<open>showByName\<close> on the board tab hides messaging.
\<close>

theorem showByName_errored_counterexample:
  "map_of (views exStateErrored) ''A:TAB_FOCALBOARD'' = Some exViewBoardErrored
   \<and> isErrored exViewBoardErrored
   \<and> visibility exStateErrored = [(''A:TAB_MESSAGING'', True), (''A:TAB_FOCALBOARD'', False)]
   \<and> visibility (showByName ''A:TAB_FOCALBOARD'' exStateErrored)
        = [(''A:TAB_MESSAGING'', False), (''A:TAB_FOCALBOARD'', False)]"
  by code_simp

text \<open>
  C5, amended. \<^verbatim>\<open>showByName\<close> on the name of an errored view \<open>v\<close> never shows \<open>v\<close>
  (the view is left exactly as it was). It hides the previously active view when that
  is another view and \<open>v\<close> was not already visible; every other view keeps its
  visibility (and the rest of its state).
\<close>

theorem showByName_errored_never_shown:
  assumes "map_of (views s) n = Some v" "isErrored v"
  shows "map_of (views (showByName n s)) n = Some v
       \<and> (\<forall>m w. map_of (views s) m = Some w \<longrightarrow>
            map_of (views (showByName n s)) m =
              Some (if currentView s = Some m \<and> m \<noteq> [] \<and> m \<noteq> n \<and> \<not> isVisible v
                    then view_hide w else w))"
proof (intro conjI allI impI)
  show "map_of (views (showByName n s)) n = Some v"
    using assms by (simp add: showByName_errored_views map_of_hidePrevious)
next
  fix m w
  assume "map_of (views s) m = Some w"
  then show "map_of (views (showByName n s)) m =
      Some (if currentView s = Some m \<and> m \<noteq> [] \<and> m \<noteq> n \<and> \<not> isVisible v
            then view_hide w else w)"
    using assms by (simp add: showByName_errored_views map_of_hidePrevious)
qed

theorem showByName_errored_never_shown_witness:
  "map_of (views exStateErrored) ''A:TAB_FOCALBOARD'' = Some exViewBoardErrored
   \<and> isErrored exViewBoardErrored
   \<and> map_of (views (showByName ''A:TAB_FOCALBOARD'' exStateErrored)) ''A:TAB_FOCALBOARD''
        = Some exViewBoardErrored
   \<and> map_of (views exStateErrored) ''A:TAB_MESSAGING'' = Some exViewMsg
   \<and> map_of (views (showByName ''A:TAB_FOCALBOARD'' exStateErrored)) ''A:TAB_MESSAGING''
        = Some (view_hide exViewMsg)"
proof -
  have a: "map_of (views exStateErrored) ''A:TAB_FOCALBOARD'' = Some exViewBoardErrored"
    and b: "isErrored exViewBoardErrored"
    and c: "map_of (views exStateErrored) ''A:TAB_MESSAGING'' = Some exViewMsg"
    and d: "currentView exStateErrored = Some ''A:TAB_MESSAGING''
            \<and> ''A:TAB_MESSAGING'' \<noteq> [] \<and> ''A:TAB_MESSAGING'' \<noteq> ''A:TAB_FOCALBOARD''
            \<and> \<not> isVisible exViewBoardErrored"
    by code_simp+
  note t = showByName_errored_never_shown [OF a b]
  from t have "map_of (views (showByName ''A:TAB_FOCALBOARD'' exStateErrored)) ''A:TAB_FOCALBOARD''
        = Some exViewBoardErrored" by (rule conjunct1)
  moreover from t c d have
    "map_of (views (showByName ''A:TAB_FOCALBOARD'' exStateErrored)) ''A:TAB_MESSAGING''
        = Some (view_hide exViewMsg)" by simp
  ultimately show ?thesis using a b c by blast
qed

subsection \<open>The URL preview overlay\<close>

lemma urlInv_cancel:
  assumes "urlInv s" "urlViewCancel s = Some i"
  shows "urlOverlays (cancelURLView i s) = [] \<and> timers (cancelURLView i s) = []
       \<and> urlViewCancel (cancelURLView i s) = None
       \<and> widthListeners (cancelURLView i s) = remove1 i (widthListeners s)
       \<and> nextSurface (cancelURLView i s) = nextSurface s"
proof -
  obtain u where "urlOverlays s = [(i, u)]"
    using assms by (cases "urlOverlays s") (auto simp: urlInv_def)
  moreover have "timers s = [(i, URL_VIEW_DURATION)]" using assms by (simp add: urlInv_def)
  ultimately show ?thesis by (simp add: cancelURLView_def hideView_def)
qed

lemma showURLView_nonempty:
  assumes "urlInv s" "u \<noteq> []"
  shows "urlOverlays (showURLView u s) = [(nextSurface s, u)]
       \<and> timers (showURLView u s) = [(nextSurface s, URL_VIEW_DURATION)]
       \<and> urlViewCancel (showURLView u s) = Some (nextSurface s)
       \<and> nextSurface (showURLView u s) = Suc (nextSurface s)
       \<and> widthListeners (showURLView u s) =
            (case urlViewCancel s of None \<Rightarrow> widthListeners s
             | Some i \<Rightarrow> remove1 i (widthListeners s)) @ [nextSurface s]"
proof (cases "urlViewCancel s")
  case None
  then show ?thesis using assms by (simp add: showURLView_def urlInv_def Let_def)
next
  case (Some i)
  then show ?thesis using assms(2) urlInv_cancel [OF assms(1) Some]
    by (simp add: showURLView_def Let_def)
qed

lemma showURLView_empty:
  "showURLView [] s = (case urlViewCancel s of None \<Rightarrow> s | Some i \<Rightarrow> cancelURLView i s)"
  by (simp add: showURLView_def)

lemma urlInv_showURLView: "urlInv s \<Longrightarrow> urlInv (showURLView u s)"
proof (cases "u = []")
  case True
  assume "urlInv s"
  then show ?thesis using True urlInv_cancel [of s]
    by (cases "urlViewCancel s") (simp_all add: showURLView_empty urlInv_def)
next
  case False
  assume "urlInv s"
  then show ?thesis using showURLView_nonempty [OF _ False, of s]
    by (simp add: urlInv_def)
qed

lemma urlInv_timerFires: "urlInv s \<Longrightarrow> urlInv (timerFires i s)"
  by (cases "urlViewCancel s") (auto simp: urlInv_def timerFires_def hideView_def)

lemma urlInv_steps: "urlInv s \<Longrightarrow> urlInv (foldl urlStep s evs)"
proof (induction evs arbitrary: s)
  case Nil
  then show ?case by simp
next
  case (Cons e evs)
  have "urlInv (urlStep s e)"
    using Cons.prems by (cases e) (simp_all add: urlInv_showURLView urlInv_timerFires)
  then have "urlInv (foldl urlStep (urlStep s e) evs)" by (rule Cons.IH)
  then show ?case by simp
qed

lemma urlInv_at_most_one: "urlInv s \<Longrightarrow> length (urlOverlays s) \<le> 1"
proof -
  assume "urlInv s"
  then have "length (map fst (urlOverlays s)) \<le> 1"
    by (cases "urlViewCancel s") (simp_all add: urlInv_def)
  then show ?thesis by simp
qed

text \<open>
  C9. From a state with no overlay (or with one overlay, its timer and its cancel
  closure), after any sequence of \<^verbatim>\<open>showURLView\<close> calls and timer expiries at most one
  URL overlay is attached. Two successive calls with non-empty URLs leave exactly the
  overlay of the second URL: the first overlay's timer is gone, its width listener is
  removed, and the pending timer is the second overlay's, set to 10 seconds
  (\<open>10 * 1000\<close> milliseconds). When that timer expires the overlay is removed and the
  cancel closure is deleted.
\<close>

theorem showURLView_single_overlay:
  assumes "urlInv s"
  shows "length (urlOverlays (foldl urlStep s evs)) \<le> 1
       \<and> (\<forall>u1 u2. u1 \<noteq> [] \<and> u2 \<noteq> [] \<longrightarrow>
            urlOverlays (showURLView u2 (showURLView u1 s)) = [(Suc (nextSurface s), u2)]
          \<and> timers (showURLView u2 (showURLView u1 s)) = [(Suc (nextSurface s), URL_VIEW_DURATION)]
          \<and> urlViewCancel (showURLView u2 (showURLView u1 s)) = Some (Suc (nextSurface s))
          \<and> widthListeners (showURLView u2 (showURLView u1 s)) =
               remove1 (nextSurface s) (widthListeners (showURLView u1 s)) @ [Suc (nextSurface s)]
          \<and> urlOverlays (timerFires (Suc (nextSurface s)) (showURLView u2 (showURLView u1 s))) = []
          \<and> urlViewCancel (timerFires (Suc (nextSurface s)) (showURLView u2 (showURLView u1 s))) = None)
       \<and> URL_VIEW_DURATION = 10 * 1000"
proof (intro conjI allI impI)
  show "length (urlOverlays (foldl urlStep s evs)) \<le> 1"
    using assms by (intro urlInv_at_most_one urlInv_steps)
next
  show "URL_VIEW_DURATION = 10 * 1000" by (simp add: URL_VIEW_DURATION_def SECOND_def)
next
  fix u1 u2 :: string
  assume ne: "u1 \<noteq> [] \<and> u2 \<noteq> []"
  let ?s1 = "showURLView u1 s"
  let ?s2 = "showURLView u2 ?s1"
  have one: "urlInv ?s1" using assms by (rule urlInv_showURLView)
  have f1: "urlViewCancel ?s1 = Some (nextSurface s)" "nextSurface ?s1 = Suc (nextSurface s)"
    using showURLView_nonempty [OF assms, of u1] ne by simp_all
  have f2: "urlOverlays ?s2 = [(nextSurface ?s1, u2)]
       \<and> timers ?s2 = [(nextSurface ?s1, URL_VIEW_DURATION)]
       \<and> urlViewCancel ?s2 = Some (nextSurface ?s1)
       \<and> nextSurface ?s2 = Suc (nextSurface ?s1)
       \<and> widthListeners ?s2 =
            (case urlViewCancel ?s1 of None \<Rightarrow> widthListeners ?s1
             | Some i \<Rightarrow> remove1 i (widthListeners ?s1)) @ [nextSurface ?s1]"
    using ne by (intro showURLView_nonempty [OF one]) simp
  show "urlOverlays ?s2 = [(Suc (nextSurface s), u2)]" using f2 f1 by simp
  show "timers ?s2 = [(Suc (nextSurface s), URL_VIEW_DURATION)]" using f2 f1 by simp
  show "urlViewCancel ?s2 = Some (Suc (nextSurface s))" using f2 f1 by simp
  show "widthListeners ?s2 = remove1 (nextSurface s) (widthListeners ?s1) @ [Suc (nextSurface s)]"
    using f2 f1 by simp
  show "urlOverlays (timerFires (Suc (nextSurface s)) ?s2) = []"
    using f2 f1 by (simp add: timerFires_def hideView_def)
  show "urlViewCancel (timerFires (Suc (nextSurface s)) ?s2) = None"
    using f2 f1 by (simp add: timerFires_def hideView_def)
qed

theorem showURLView_single_overlay_witness:
  "urlInv exFresh
   \<and> length (urlOverlays (foldl urlStep exFresh
        [ShowURL ''https://a.example.com/one'', ShowURL ''https://a.example.com/two'',
         TimerFires 0, TimerFires 1, ShowURL ''https://a.example.com/three''])) \<le> 1
   \<and> ''https://a.example.com/one'' \<noteq> [] \<and> ''https://a.example.com/two'' \<noteq> []
   \<and> urlOverlays (showURLView ''https://a.example.com/two''
         (showURLView ''https://a.example.com/one'' exFresh)) = [(1, ''https://a.example.com/two'')]
   \<and> timers (showURLView ''https://a.example.com/two''
         (showURLView ''https://a.example.com/one'' exFresh)) = [(1, 10000)]
   \<and> widthListeners (showURLView ''https://a.example.com/two''
         (showURLView ''https://a.example.com/one'' exFresh)) = [1]"
proof -
  have inv: "urlInv exFresh" by code_simp
  have ne: "''https://a.example.com/one'' \<noteq> [] \<and> ''https://a.example.com/two'' \<noteq> []"
    by simp
  have n: "nextSurface exFresh = 0" by code_simp
  have w: "widthListeners (showURLView ''https://a.example.com/one'' exFresh) = [0]"
    by code_simp
  note t = showURLView_single_overlay [OF inv,
      of "[ShowURL ''https://a.example.com/one'', ShowURL ''https://a.example.com/two'',
           TimerFires 0, TimerFires 1, ShowURL ''https://a.example.com/three'']"]
  from t have "length (urlOverlays (foldl urlStep exFresh
        [ShowURL ''https://a.example.com/one'', ShowURL ''https://a.example.com/two'',
         TimerFires 0, TimerFires 1, ShowURL ''https://a.example.com/three''])) \<le> 1"
    by (rule conjunct1)
  moreover from t ne have
    "urlOverlays (showURLView ''https://a.example.com/two''
         (showURLView ''https://a.example.com/one'' exFresh))
       = [(Suc (nextSurface exFresh), ''https://a.example.com/two'')]
     \<and> timers (showURLView ''https://a.example.com/two''
         (showURLView ''https://a.example.com/one'' exFresh))
       = [(Suc (nextSurface exFresh), URL_VIEW_DURATION)]
     \<and> widthListeners (showURLView ''https://a.example.com/two''
         (showURLView ''https://a.example.com/one'' exFresh))
       = remove1 (nextSurface exFresh)
           (widthListeners (showURLView ''https://a.example.com/one'' exFresh))
         @ [Suc (nextSurface exFresh)]"
    by blast
  ultimately show ?thesis using inv ne n w
    by (simp add: URL_VIEW_DURATION_def SECOND_def)
qed

text \<open>
  C10. \<^verbatim>\<open>showURLView\<close> with the empty URL only runs the pending cancel closure, if
  there is one: the closure's overlay is detached, its timer cleared and its width
  listener removed. No overlay is created (no surface is allocated and the overlays
  are the old ones without the cancelled one), and \<^verbatim>\<open>urlViewCancel\<close> is unset
  afterwards. Where the pending overlay was the only one, none is left.
\<close>

theorem showURLView_empty_dismisses:
  "showURLView [] s = (case urlViewCancel s of None \<Rightarrow> s | Some i \<Rightarrow> cancelURLView i s)
   \<and> urlViewCancel (showURLView [] s) = None
   \<and> nextSurface (showURLView [] s) = nextSurface s
   \<and> urlOverlays (showURLView [] s) =
        (case urlViewCancel s of None \<Rightarrow> urlOverlays s
         | Some i \<Rightarrow> filter (\<lambda>(j, u). j \<noteq> i) (urlOverlays s))
   \<and> (\<forall>i. urlViewCancel s = Some i \<longrightarrow>
          i \<notin> fst ` set (urlOverlays (showURLView [] s))
        \<and> i \<notin> fst ` set (timers (showURLView [] s))
        \<and> widthListeners (showURLView [] s) = remove1 i (widthListeners s))
   \<and> (urlInv s \<longrightarrow> urlOverlays (showURLView [] s) = [] \<and> timers (showURLView [] s) = [])"
proof (intro conjI allI impI)
  show "showURLView [] s = (case urlViewCancel s of None \<Rightarrow> s | Some i \<Rightarrow> cancelURLView i s)"
    by (rule showURLView_empty)
  show "urlViewCancel (showURLView [] s) = None"
    by (simp add: showURLView_empty cancelURLView_def hideView_def split: option.splits)
  show "nextSurface (showURLView [] s) = nextSurface s"
    by (simp add: showURLView_empty cancelURLView_def hideView_def split: option.splits)
  show "urlOverlays (showURLView [] s) =
        (case urlViewCancel s of None \<Rightarrow> urlOverlays s
         | Some i \<Rightarrow> filter (\<lambda>(j, u). j \<noteq> i) (urlOverlays s))"
    by (simp add: showURLView_empty cancelURLView_def hideView_def split: option.splits)
next
  fix i
  assume c: "urlViewCancel s = Some i"
  show "i \<notin> fst ` set (urlOverlays (showURLView [] s))"
    using c by (auto simp: showURLView_empty cancelURLView_def hideView_def)
  show "i \<notin> fst ` set (timers (showURLView [] s))"
    using c by (auto simp: showURLView_empty cancelURLView_def hideView_def)
  show "widthListeners (showURLView [] s) = remove1 i (widthListeners s)"
    using c by (simp add: showURLView_empty cancelURLView_def hideView_def)
next
  assume inv: "urlInv s"
  show "urlOverlays (showURLView [] s) = []"
    using inv urlInv_cancel [OF inv]
    by (cases "urlViewCancel s") (simp_all add: showURLView_empty urlInv_def)
  show "timers (showURLView [] s) = []"
    using inv urlInv_cancel [OF inv]
    by (cases "urlViewCancel s") (simp_all add: showURLView_empty urlInv_def)
qed

theorem showURLView_empty_dismisses_witness:
  "urlViewCancel exOverlay = Some 0 \<and> urlInv exOverlay
   \<and> urlOverlays exOverlay = [(0, ''https://a.example.com/one'')]
   \<and> urlViewCancel (showURLView [] exOverlay) = None
   \<and> 0 \<notin> fst ` set (timers (showURLView [] exOverlay))
   \<and> widthListeners (showURLView [] exOverlay) = remove1 0 (widthListeners exOverlay)
   \<and> urlOverlays (showURLView [] exOverlay) = []
   \<and> nextSurface (showURLView [] exOverlay) = nextSurface exOverlay"
proof -
  have c: "urlViewCancel exOverlay = Some 0" by code_simp
  have inv: "urlInv exOverlay" by code_simp
  have o: "urlOverlays exOverlay = [(0, ''https://a.example.com/one'')]" by code_simp
  note t = showURLView_empty_dismisses [of exOverlay]
  from t c inv o show ?thesis by blast
qed

subsection \<open>Deep links\<close>

lemma map_map_entry_same:
  assumes "\<And>v. f (k, g v) = f (k, v)"
  shows "map f (AList.map_entry k g al) = map f al"
  using assms by (induction al) auto

lemma listenerLists_emitEffect [simp]: "listenerLists (emitEffect e s) = listenerLists s"
  by (simp add: listenerLists_def)

lemma listenerLists_fadeLoadingScreen [simp]: "listenerLists (fadeLoadingScreen s) = listenerLists s"
  by (simp add: listenerLists_def fadeLoadingScreen_def emitEffect_def)

lemma listenerLists_hide_entry [simp]:
  "listenerLists (s\<lparr>views := AList.map_entry k view_hide (views s)\<rparr>) = listenerLists s"
  by (simp add: listenerLists_def map_map_entry_same view_hide_def)

lemma listenerLists_show_entry [simp]:
  "listenerLists (s\<lparr>views := AList.map_entry k view_show (views s)\<rparr>) = listenerLists s"
  by (simp add: listenerLists_def map_map_entry_same view_show_def)

lemma listenerLists_visible_entry [simp]:
  "listenerLists (s\<lparr>views := AList.map_entry k (\<lambda>v. v\<lparr>isVisible := b\<rparr>) (views s)\<rparr>) = listenerLists s"
  by (simp add: listenerLists_def map_map_entry_same)

lemma listenerLists_currentView [simp]:
  "listenerLists (s\<lparr>currentView := c\<rparr>) = listenerLists s"
  by (simp add: listenerLists_def)

lemma listenerLists_hidePrevious [simp]: "listenerLists (hidePrevious n s) = listenerLists s"
  by (simp add: hidePrevious_def split: option.splits)

lemma listenerLists_showTarget [simp]: "listenerLists (showTarget n w s) = listenerLists s"
  by (simp add: showTarget_def Let_def showLoadingScreen_def listenerLists_def map_map_entry_same view_show_def emitEffect_def)

lemma listenerLists_notifyActive [simp]: "listenerLists (notifyActive w s) = listenerLists s"
  by (simp add: notifyActive_def Let_def)

lemma listenerLists_showByName [simp]: "listenerLists (showByName n s) = listenerLists s"
  by (simp add: showByName_def setCurrent_def split: option.splits)

lemma listenerLists_activateView [simp]: "listenerLists (activateView n s) = listenerLists s"
  by (simp add: activateView_def Let_def split: option.splits)

lemma listenerLists_failLoading [simp]: "listenerLists (failLoading n s) = listenerLists s"
proof -
  have "listenerLists ((fadeLoadingScreen s)\<lparr>views := AList.map_entry n view_hide (views (fadeLoadingScreen s))\<rparr>)
      = listenerLists (fadeLoadingScreen s)" by (rule listenerLists_hide_entry)
  then show ?thesis by (simp add: failLoading_def Let_def)
qed

lemma listenerLists_runHandler:
  assumes "h \<noteq> H_deeplinkSuccess" "h \<noteq> H_deeplinkFailed"
  shows "listenerLists (runHandler key nm h s) = listenerLists s"
proof (cases h)
  case (H_reshow name)
  have "listenerLists (showByName name (s\<lparr>views := AList.map_entry key (\<lambda>v. v\<lparr>isVisible := False\<rparr>) (views s)\<rparr>))
      = listenerLists (s\<lparr>views := AList.map_entry key (\<lambda>v. v\<lparr>isVisible := False\<rparr>) (views s)\<rparr>)"
    by (rule listenerLists_showByName)
  then show ?thesis using H_reshow by simp
qed (use assms in simp_all)

lemma map_of_listenerLists:
  "map_of (listenerLists s) k = map_option (\<lambda>v. (onLoadSuccess v, onLoadFailed v)) (map_of (views s) k)"
  by (simp add: listenerLists_def map_of_map)

lemma removeListener_last: "removeListener h (ls @ [Once h]) = ls"
  by (simp add: removeListener_def)

lemma viewLoads_append [simp]: "viewLoads (xs @ ys) = viewLoads xs @ viewLoads ys"
  by (simp add: viewLoads_def)

lemma viewLoads_showByName: "viewLoads (effects (showByName n s)) = viewLoads (effects s)"
  by (simp add: showByName_def notifyActive_def showTarget_def setCurrent_def hidePrevious_def
      showLoadingScreen_def emitEffect_def Let_def viewLoads_def split: option.splits)

lemma viewLoads_deeplinkSuccess: "viewLoads (effects (deeplinkSuccess n s)) = viewLoads (effects s)"
  by (simp add: deeplinkSuccess_def Let_def viewLoads_showByName split: option.splits)

lemma keys_showByName [simp]: "map fst (views (showByName n s)) = map fst (views s)"
  by (simp add: showByName_def split: option.splits)

lemma listenerLists_deeplinkSuccess:
  "map_of (listenerLists (deeplinkSuccess n s)) n =
     map_option (\<lambda>(a, b). (a, removeListener H_deeplinkFailed b)) (map_of (listenerLists s) n)"
proof (cases "map_of (views s) n")
  case None
  then show ?thesis by (simp add: deeplinkSuccess_def map_of_listenerLists)
next
  case (Some view)
  have "map_of (listenerLists (showByName n s)) n = map_of (listenerLists s) n" by simp
  then have "map_option (\<lambda>v. (onLoadSuccess v, onLoadFailed v)) (map_of (views (showByName n s)) n)
     = map_option (\<lambda>v. (onLoadSuccess v, onLoadFailed v)) (map_of (views s) n)"
    by (simp only: map_of_listenerLists)
  then show ?thesis using Some
    by (auto simp: deeplinkSuccess_def Let_def map_of_listenerLists map_of_map_entry split: option.splits)
qed

lemma listenerLists_deeplinkFailed:
  "map_of (listenerLists (deeplinkFailed n s)) n =
     map_option (\<lambda>(a, b). (removeListener H_deeplinkSuccess a, b)) (map_of (listenerLists s) n)"
  by (auto simp: deeplinkFailed_def map_of_listenerLists map_of_map_entry split: option.splits)

lemma view_name_load [simp]: "view_name (view_load v) = view_name v"
  and view_name_reset [simp]: "view_name (view_resetLoadingStatus v) = view_name v"
  by (simp_all add: view_name_def view_load_def view_resetLoadingStatus_def)

lemma deepLinkReload_view:
  assumes "map_of (views s) key = Some view"
  shows "map_of (views (deepLinkReload key u s)) key =
           Some ((view_load (view_resetLoadingStatus view))
                   \<lparr>onLoadSuccess := onLoadSuccess view @ [Once H_deeplinkSuccess],
                     onLoadFailed := onLoadFailed view @ [Once H_deeplinkFailed]\<rparr>)"
    and "effects (deepLinkReload key u s) = effects s @ [ViewLoad (surface view) (Some u)]"
  using assms by (simp_all add: deepLinkReload_def map_of_map_entry emitEffect_def)

lemma countHandler_simps [simp]:
  "countHandler h [] = 0"
  "countHandler h (l # ls) = (if handler_of l = h then Suc (countHandler h ls) else countHandler h ls)"
  "countHandler h (ls @ ms) = countHandler h ls + countHandler h ms"
  by (simp_all add: countHandler_def)

lemma listenerLists_fold:
  "map_of (listenerLists (foldl (\<lambda>s l. runHandler key key (handler_of l) s) s ls)) key
   = map_option (\<lambda>(a, b). ((removeListener H_deeplinkSuccess ^^ countHandler H_deeplinkFailed ls) a,
                           (removeListener H_deeplinkFailed ^^ countHandler H_deeplinkSuccess ls) b))
       (map_of (listenerLists s) key)"
proof (induction ls arbitrary: s)
  case Nil
  show ?case by (simp add: option.map_ident case_prod_unfold)
next
  case (Cons l ls)
  let ?run = "\<lambda>s l. runHandler key key (handler_of l) s"
  let ?G = "\<lambda>ls (a, b). ((removeListener H_deeplinkSuccess ^^ countHandler H_deeplinkFailed ls) a,
                           (removeListener H_deeplinkFailed ^^ countHandler H_deeplinkSuccess ls) b)"
  have ih: "map_of (listenerLists (foldl ?run (?run s l) ls)) key
      = map_option (?G ls) (map_of (listenerLists (?run s l)) key)"
    by (rule Cons.IH)
  consider (ds) "handler_of l = H_deeplinkSuccess" | (df) "handler_of l = H_deeplinkFailed"
    | (other) "handler_of l \<noteq> H_deeplinkSuccess" "handler_of l \<noteq> H_deeplinkFailed"
    by blast
  then show ?case
  proof cases
    case ds
    have "map_of (listenerLists (?run s l)) key
        = map_option (\<lambda>(a, b). (a, removeListener H_deeplinkFailed b)) (map_of (listenerLists s) key)"
      using ds by (simp add: listenerLists_deeplinkSuccess)
    then show ?thesis using ih ds
      by (simp add: option.map_comp comp_def case_prod_unfold funpow_swap1)
  next
    case df
    have "map_of (listenerLists (?run s l)) key
        = map_option (\<lambda>(a, b). (removeListener H_deeplinkSuccess a, b)) (map_of (listenerLists s) key)"
      using df by (simp add: listenerLists_deeplinkFailed)
    then show ?thesis using ih df
      by (simp add: option.map_comp comp_def case_prod_unfold funpow_swap1)
  next
    case other
    have "listenerLists (?run s l) = listenerLists s"
      by (rule listenerLists_runHandler [OF other])
    then show ?thesis using ih other by simp
  qed
qed

lemma emitLoadSuccess_after_reload:
  assumes v: "map_of (views s) key = Some view" and k: "view_name view = key"
  shows "map_of (listenerLists (emitLoadSuccess key (deepLinkReload key u s))) key =
           Some ((removeListener H_deeplinkSuccess ^^ countHandler H_deeplinkFailed (onLoadSuccess view))
                   (filter (\<lambda>l. \<not> is_once l) (onLoadSuccess view)),
                 (removeListener H_deeplinkFailed ^^ countHandler H_deeplinkSuccess (onLoadSuccess view))
                   (onLoadFailed view))"
    and "\<exists>mid. emitLoadSuccess key (deepLinkReload key u s) = deeplinkSuccess key mid"
proof -
  let ?s1 = "deepLinkReload key u s"
  let ?v1 = "(view_load (view_resetLoadingStatus view))
                   \<lparr>onLoadSuccess := onLoadSuccess view @ [Once H_deeplinkSuccess],
                     onLoadFailed := onLoadFailed view @ [Once H_deeplinkFailed]\<rparr>"
  let ?s2 = "?s1\<lparr>views := AList.map_entry key
                      (\<lambda>v. v\<lparr>status := Ready, loadedOnce := True,
                              onLoadSuccess := filter (\<lambda>l. \<not> is_once l) (onLoadSuccess v)\<rparr>)
                      (views ?s1)\<rparr>"
  let ?run = "\<lambda>s l. runHandler key key (handler_of l) s"
  have v1: "map_of (views ?s1) key = Some ?v1" by (rule deepLinkReload_view(1) [OF v])
  have n1: "view_name ?v1 = key" using k by (simp add: view_name_def view_load_def view_resetLoadingStatus_def)
  have e: "emitLoadSuccess key ?s1 = foldl ?run ?s2 (onLoadSuccess view @ [Once H_deeplinkSuccess])"
    using v1 n1 by (simp add: emitLoadSuccess_def Let_def)
  have l2: "map_of (listenerLists ?s2) key =
      Some (filter (\<lambda>l. \<not> is_once l) (onLoadSuccess view), onLoadFailed view @ [Once H_deeplinkFailed])"
    using v1 by (simp add: map_of_listenerLists map_of_map_entry)
  have "emitLoadSuccess key ?s1 = deeplinkSuccess key (foldl ?run ?s2 (onLoadSuccess view))"
    unfolding e by simp
  then show "\<exists>mid. emitLoadSuccess key ?s1 = deeplinkSuccess key mid" by blast
  have "map_of (listenerLists (emitLoadSuccess key ?s1)) key =
      Some ((removeListener H_deeplinkSuccess ^^ countHandler H_deeplinkFailed (onLoadSuccess view))
                   (filter (\<lambda>l. \<not> is_once l) (onLoadSuccess view)),
            (removeListener H_deeplinkFailed ^^ Suc (countHandler H_deeplinkSuccess (onLoadSuccess view)))
                   (onLoadFailed view @ [Once H_deeplinkFailed]))"
    unfolding e listenerLists_fold l2 by simp
  then show "map_of (listenerLists (emitLoadSuccess key ?s1)) key =
           Some ((removeListener H_deeplinkSuccess ^^ countHandler H_deeplinkFailed (onLoadSuccess view))
                   (filter (\<lambda>l. \<not> is_once l) (onLoadSuccess view)),
                 (removeListener H_deeplinkFailed ^^ countHandler H_deeplinkSuccess (onLoadSuccess view))
                   (onLoadFailed view))"
    by (simp only: funpow_Suc_right comp_def removeListener_last)
qed

lemma emitLoadFailed_after_reload:
  assumes v: "map_of (views s) key = Some view" and k: "view_name view = key"
  shows "map_of (listenerLists (emitLoadFailed key (deepLinkReload key u s))) key =
           Some ((removeListener H_deeplinkSuccess ^^ countHandler H_deeplinkFailed (onLoadFailed view))
                   (onLoadSuccess view),
                 (removeListener H_deeplinkFailed ^^ countHandler H_deeplinkSuccess (onLoadFailed view))
                   (filter (\<lambda>l. \<not> is_once l) (onLoadFailed view)))"
    and "\<exists>mid. emitLoadFailed key (deepLinkReload key u s) = deeplinkFailed key mid"
proof -
  let ?s1 = "deepLinkReload key u s"
  let ?v1 = "(view_load (view_resetLoadingStatus view))
                   \<lparr>onLoadSuccess := onLoadSuccess view @ [Once H_deeplinkSuccess],
                     onLoadFailed := onLoadFailed view @ [Once H_deeplinkFailed]\<rparr>"
  let ?s2 = "?s1\<lparr>views := AList.map_entry key
                      (\<lambda>v. v\<lparr>status := Errored,
                              onLoadFailed := filter (\<lambda>l. \<not> is_once l) (onLoadFailed v)\<rparr>)
                      (views ?s1)\<rparr>"
  let ?run = "\<lambda>s l. runHandler key key (handler_of l) s"
  have v1: "map_of (views ?s1) key = Some ?v1" by (rule deepLinkReload_view(1) [OF v])
  have n1: "view_name ?v1 = key" using k by (simp add: view_name_def view_load_def view_resetLoadingStatus_def)
  have e: "emitLoadFailed key ?s1 = foldl ?run ?s2 (onLoadFailed view @ [Once H_deeplinkFailed])"
    using v1 n1 by (simp add: emitLoadFailed_def Let_def)
  have l2: "map_of (listenerLists ?s2) key =
      Some (onLoadSuccess view @ [Once H_deeplinkSuccess], filter (\<lambda>l. \<not> is_once l) (onLoadFailed view))"
    using v1 by (simp add: map_of_listenerLists map_of_map_entry)
  have "emitLoadFailed key ?s1 = deeplinkFailed key (foldl ?run ?s2 (onLoadFailed view))"
    unfolding e by simp
  then show "\<exists>mid. emitLoadFailed key ?s1 = deeplinkFailed key mid" by blast
  have "map_of (listenerLists (emitLoadFailed key ?s1)) key =
      Some ((removeListener H_deeplinkSuccess ^^ Suc (countHandler H_deeplinkFailed (onLoadFailed view)))
                   (onLoadSuccess view @ [Once H_deeplinkSuccess]),
            (removeListener H_deeplinkFailed ^^ countHandler H_deeplinkSuccess (onLoadFailed view))
                   (filter (\<lambda>l. \<not> is_once l) (onLoadFailed view)))"
    unfolding e listenerLists_fold l2 by simp
  then show "map_of (listenerLists (emitLoadFailed key ?s1)) key =
           Some ((removeListener H_deeplinkSuccess ^^ countHandler H_deeplinkFailed (onLoadFailed view))
                   (onLoadSuccess view),
                 (removeListener H_deeplinkFailed ^^ countHandler H_deeplinkSuccess (onLoadFailed view))
                   (filter (\<lambda>l. \<not> is_once l) (onLoadFailed view)))"
    by (simp only: funpow_Suc_right comp_def removeListener_last)
qed

lemma viewLoads_historyPush: "viewLoads [SendHistoryPush i x] = []"
  by (simp add: viewLoads_def)

lemma empty_version_below: "\<not> isVersionGreaterThanOrEqualTo [] ''6.0.0''"
  by code_simp

text \<open>
  C8. A deep link that is not empty, parses, and resolves to no configured server only
  shows the error box: the state returned is the old one with that one effect added, so
  \<^verbatim>\<open>views\<close>, \<^verbatim>\<open>closedViews\<close>, \<^verbatim>\<open>currentView\<close> and every view are unchanged.
\<close>

theorem handleDeepLink_no_match:
  assumes "url \<noteq> []" "parseURL url = Some p" "getView p (configServers s) = None"
  shows "handleDeepLink parseURL getView url s =
           Inr (s\<lparr>effects := effects s @
                  [ShowErrorBox ''No matching server''
                     (''there is no configured server in the app that matches the requested url: ''
                        @ url_href p)]\<rparr>)"
  using assms by (simp add: handleDeepLink_def emitEffect_def noMatchingServer_def)

theorem handleDeepLink_no_match_witness:
  "''mattermost://b.example.com/team'' \<noteq> []
   \<and> exParseURL ''mattermost://b.example.com/team''
       = Some \<lparr>url_origin = ''null'', url_pathname = ''/team'', url_search = [],
               url_href = ''mattermost://b.example.com/team''\<rparr>
   \<and> exGetView \<lparr>url_origin = ''null'', url_pathname = ''/team'', url_search = [],
                 url_href = ''mattermost://b.example.com/team''\<rparr> (configServers exState) = None
   \<and> handleDeepLink exParseURL exGetView ''mattermost://b.example.com/team'' exState =
         Inr (exState\<lparr>effects :=
                [ShowErrorBox ''No matching server''
                   ''there is no configured server in the app that matches the requested url: mattermost://b.example.com/team'']\<rparr>)"
proof -
  have a: "''mattermost://b.example.com/team'' \<noteq> []" by simp
  have b: "exParseURL ''mattermost://b.example.com/team''
       = Some \<lparr>url_origin = ''null'', url_pathname = ''/team'', url_search = [],
               url_href = ''mattermost://b.example.com/team''\<rparr>" by code_simp
  have c: "exGetView \<lparr>url_origin = ''null'', url_pathname = ''/team'', url_search = [],
                 url_href = ''mattermost://b.example.com/team''\<rparr> (configServers exState) = None"
    by code_simp
  have e: "effects exState = []" by code_simp
  show ?thesis
    using a b c e
      handleDeepLink_no_match [where parseURL = exParseURL and getView = exGetView
        and s = exState, OF a b c]
    by simp
qed

text \<open>
  C4, as stated, fails: \<^verbatim>\<open>handleDeepLink\<close> looks the resolved name up in \<^verbatim>\<open>closedViews\<close>
  first. Where the name is also the key of a closed-view record, a deep link to a live
  view that is initialized and whose server reports 6.0.0 reopens the closed tab: a
  new surface is loaded with the target URL and nothing is pushed into the live one.
\<close>

theorem handleDeepLink_closed_first_counterexample:
  "exParseBoard ''mattermost://b.example.com/boards/team''
     = Some \<lparr>url_origin = ''null'', url_pathname = ''/boards/team'', url_search = [],
              url_href = ''mattermost://b.example.com/boards/team''\<rparr>
   \<and> exGetBoard \<lparr>url_origin = ''null'', url_pathname = ''/boards/team'', url_search = [],
                    url_href = ''mattermost://b.example.com/boards/team''\<rparr> (configServers exOverlap)
     = Some \<lparr>tv_name = ''B:TAB_FOCALBOARD'', tv_url = ''https://b.example.com/boards''\<rparr>
   \<and> map fst (views exOverlap) = [''B:TAB_MESSAGING'', ''B:TAB_FOCALBOARD'']
   \<and> map fst (closedViews exOverlap) = [''B:TAB_FOCALBOARD'']
   \<and> map_option (\<lambda>v. (surface v, view_name v, isInitialized v, serverVersion (serverInfo v)))
         (map_of (views exOverlap) ''B:TAB_FOCALBOARD'')
     = Some (1, ''B:TAB_FOCALBOARD'', True, Some ''6.0.0'')
   \<and> isVersionGreaterThanOrEqualTo ''6.0.0'' ''6.0.0''
   \<and> handleDeepLink exParseBoard exGetBoard ''mattermost://b.example.com/boards/team'' exOverlap
     = Inr exOverlapLinked
   \<and> drop (length (effects exOverlap)) (effects exOverlapLinked)
     = [ViewLoad 3 (Some ''https://b.example.com/boards/team''), ToggleLoadingScreen True,
        SendSetActiveView ''B'' TAB_FOCALBOARD, EmitSetActiveView ''B'' TAB_FOCALBOARD, ShowModal,
        EmitOpenTab ''B'' TAB_FOCALBOARD]
   \<and> map_option surface (map_of (views exOverlapLinked) ''B:TAB_FOCALBOARD'') = Some 3"
  by code_simp

text \<open>
  C4, amended. A deep link resolves to the tab \<open>tv\<close>, whose name has no closed-view
  record and whose view is in \<^verbatim>\<open>views\<close> under its own name. The target URL is the origin
  of the tab's URL followed by the path and the query of the link. If the view is
  initialized and its server reports a version that is at least 6.0.0, the target
  without the server's URL is pushed into the live surface and \<^verbatim>\<open>deeplinkSuccess\<close> runs
  at once; no load is started. If the view is not initialized, or no version is
  reported, or the version is below 6.0.0, the view is reloaded with the target URL and
  the two \<^verbatim>\<open>once\<close> listeners are registered. At the next \<^verbatim>\<open>LOAD_SUCCESS\<close> the success
  listener is called, last, and no \<^verbatim>\<open>once\<close> listener is left on \<^verbatim>\<open>LOAD_SUCCESS\<close>; every
  call of \<^verbatim>\<open>deeplinkSuccess\<close> takes the most recent \<^verbatim>\<open>deeplinkFailed\<close> listener off
  \<^verbatim>\<open>LOAD_FAILED\<close>, the first of them the one just registered, so that with no earlier
  attempt pending the failure listeners are those from before the deep link. At the
  next \<^verbatim>\<open>LOAD_FAILED\<close> the same holds with the two events exchanged. Version 6.0.0
  passes the gate and 5.9.0 does not.
\<close>

theorem handleDeepLink_version_gate:
  fixes parseURL :: "string \<Rightarrow> URL option" and tv :: TabViewRef and p :: URL
    and target :: string
  defines "target \<equiv>
      (case parseURL (tv_url tv) of None \<Rightarrow> ''undefined'' | Some u \<Rightarrow> url_origin u)
        @ url_pathname p @ url_search p"
  assumes url: "url \<noteq> []" and parse: "parseURL url = Some p"
    and tab: "getView p (configServers s) = Some tv"
    and closed: "map_of (closedViews s) (tv_name tv) = None"
    and live: "map_of (views s) (tv_name tv) = Some view"
    and name: "view_name view = tv_name tv"
  shows "(\<forall>ver. isInitialized view \<and> serverVersion (serverInfo view) = Some ver
            \<and> isVersionGreaterThanOrEqualTo ver ''6.0.0'' \<longrightarrow>
            handleDeepLink parseURL getView url s =
              Inr (deeplinkSuccess (tv_name tv)
                     (emitEffect (SendHistoryPush (surface view)
                        (''/'' @ replaceFirst (srv_url (tab_server view)) [] target)) s))
          \<and> viewLoads (effects (deeplinkSuccess (tv_name tv)
                     (emitEffect (SendHistoryPush (surface view)
                        (''/'' @ replaceFirst (srv_url (tab_server view)) [] target)) s)))
              = viewLoads (effects s))
       \<and> (\<not> isInitialized view \<or> serverVersion (serverInfo view) = None
            \<or> (\<exists>ver. serverVersion (serverInfo view) = Some ver
                  \<and> \<not> isVersionGreaterThanOrEqualTo ver ''6.0.0'') \<longrightarrow>
            handleDeepLink parseURL getView url s = Inr (deepLinkReload (tv_name tv) target s)
          \<and> effects (deepLinkReload (tv_name tv) target s)
              = effects s @ [ViewLoad (surface view) (Some target)]
          \<and> map_of (views (deepLinkReload (tv_name tv) target s)) (tv_name tv)
              = Some (view\<lparr>status := Loading,
                           onLoadSuccess := onLoadSuccess view @ [Once H_deeplinkSuccess],
                           onLoadFailed := onLoadFailed view @ [Once H_deeplinkFailed]\<rparr>)
          \<and> (\<exists>mid. emitLoadSuccess (tv_name tv) (deepLinkReload (tv_name tv) target s)
                      = deeplinkSuccess (tv_name tv) mid)
          \<and> map_of (listenerLists (emitLoadSuccess (tv_name tv)
                  (deepLinkReload (tv_name tv) target s))) (tv_name tv)
              = Some ((removeListener H_deeplinkSuccess
                         ^^ countHandler H_deeplinkFailed (onLoadSuccess view))
                        (filter (\<lambda>l. \<not> is_once l) (onLoadSuccess view)),
                      (removeListener H_deeplinkFailed
                         ^^ countHandler H_deeplinkSuccess (onLoadSuccess view))
                        (onLoadFailed view))
          \<and> (\<exists>mid. emitLoadFailed (tv_name tv) (deepLinkReload (tv_name tv) target s)
                      = deeplinkFailed (tv_name tv) mid)
          \<and> map_of (listenerLists (emitLoadFailed (tv_name tv)
                  (deepLinkReload (tv_name tv) target s))) (tv_name tv)
              = Some ((removeListener H_deeplinkSuccess
                         ^^ countHandler H_deeplinkFailed (onLoadFailed view))
                        (onLoadSuccess view),
                      (removeListener H_deeplinkFailed
                         ^^ countHandler H_deeplinkSuccess (onLoadFailed view))
                        (filter (\<lambda>l. \<not> is_once l) (onLoadFailed view))))
       \<and> isVersionGreaterThanOrEqualTo ''6.0.0'' ''6.0.0''
       \<and> \<not> isVersionGreaterThanOrEqualTo ''5.9.0'' ''6.0.0''"
proof (intro conjI allI impI)
  have t: "urlWithSchema parseURL tv p = target" by (simp add: urlWithSchema_def target_def)
  fix ver
  assume h: "isInitialized view \<and> serverVersion (serverInfo view) = Some ver
            \<and> isVersionGreaterThanOrEqualTo ver ''6.0.0''"
  then have "ver \<noteq> []" using empty_version_below by auto
  then have "supportsHistoryPush view" using h by (simp add: supportsHistoryPush_def)
  then show "handleDeepLink parseURL getView url s =
      Inr (deeplinkSuccess (tv_name tv)
             (emitEffect (SendHistoryPush (surface view)
                (''/'' @ replaceFirst (srv_url (tab_server view)) [] target)) s))"
    using url parse tab closed live name t by (simp add: handleDeepLink_def historyPushPath_def)
  show "viewLoads (effects (deeplinkSuccess (tv_name tv)
                     (emitEffect (SendHistoryPush (surface view)
                        (''/'' @ replaceFirst (srv_url (tab_server view)) [] target)) s)))
              = viewLoads (effects s)"
    by (simp add: viewLoads_deeplinkSuccess emitEffect_def viewLoads_historyPush)
next
  have t: "urlWithSchema parseURL tv p = target" by (simp add: urlWithSchema_def target_def)
  assume h: "\<not> isInitialized view \<or> serverVersion (serverInfo view) = None
            \<or> (\<exists>ver. serverVersion (serverInfo view) = Some ver
                  \<and> \<not> isVersionGreaterThanOrEqualTo ver ''6.0.0'')"
  then have "\<not> supportsHistoryPush view" by (auto simp: supportsHistoryPush_def)
  then show "handleDeepLink parseURL getView url s = Inr (deepLinkReload (tv_name tv) target s)"
    using url parse tab closed live t by (simp add: handleDeepLink_def)
  show "effects (deepLinkReload (tv_name tv) target s)
      = effects s @ [ViewLoad (surface view) (Some target)]"
    by (rule deepLinkReload_view(2) [OF live])
  show "map_of (views (deepLinkReload (tv_name tv) target s)) (tv_name tv)
              = Some (view\<lparr>status := Loading,
                           onLoadSuccess := onLoadSuccess view @ [Once H_deeplinkSuccess],
                           onLoadFailed := onLoadFailed view @ [Once H_deeplinkFailed]\<rparr>)"
    by (simp add: deepLinkReload_view(1) [OF live] view_load_def view_resetLoadingStatus_def)
  show "\<exists>mid. emitLoadSuccess (tv_name tv) (deepLinkReload (tv_name tv) target s)
                      = deeplinkSuccess (tv_name tv) mid"
    by (rule emitLoadSuccess_after_reload(2) [OF live name])
  show "map_of (listenerLists (emitLoadSuccess (tv_name tv)
                  (deepLinkReload (tv_name tv) target s))) (tv_name tv)
              = Some ((removeListener H_deeplinkSuccess
                         ^^ countHandler H_deeplinkFailed (onLoadSuccess view))
                        (filter (\<lambda>l. \<not> is_once l) (onLoadSuccess view)),
                      (removeListener H_deeplinkFailed
                         ^^ countHandler H_deeplinkSuccess (onLoadSuccess view))
                        (onLoadFailed view))"
    by (rule emitLoadSuccess_after_reload(1) [OF live name])
  show "\<exists>mid. emitLoadFailed (tv_name tv) (deepLinkReload (tv_name tv) target s)
                      = deeplinkFailed (tv_name tv) mid"
    by (rule emitLoadFailed_after_reload(2) [OF live name])
  show "map_of (listenerLists (emitLoadFailed (tv_name tv)
                  (deepLinkReload (tv_name tv) target s))) (tv_name tv)
              = Some ((removeListener H_deeplinkSuccess
                         ^^ countHandler H_deeplinkFailed (onLoadFailed view))
                        (onLoadSuccess view),
                      (removeListener H_deeplinkFailed
                         ^^ countHandler H_deeplinkSuccess (onLoadFailed view))
                        (filter (\<lambda>l. \<not> is_once l) (onLoadFailed view)))"
    by (rule emitLoadFailed_after_reload(1) [OF live name])
next
  show "isVersionGreaterThanOrEqualTo ''6.0.0'' ''6.0.0''" by code_simp
  show "\<not> isVersionGreaterThanOrEqualTo ''5.9.0'' ''6.0.0''" by code_simp
qed

theorem handleDeepLink_version_gate_witness:
  "exDeepLink \<noteq> [] \<and> exParseURL exDeepLink = Some exParsed
   \<and> exGetView exParsed (configServers (exStateV ''6.0.0'')) = Some exTab
   \<and> map_of (closedViews (exStateV ''6.0.0'')) (tv_name exTab) = None
   \<and> map_of (views (exStateV ''6.0.0'')) (tv_name exTab) = Some (exViewMsgV ''6.0.0'')
   \<and> view_name (exViewMsgV ''6.0.0'') = tv_name exTab
   \<and> isInitialized (exViewMsgV ''6.0.0'')
   \<and> serverVersion (serverInfo (exViewMsgV ''6.0.0'')) = Some ''6.0.0''
   \<and> isVersionGreaterThanOrEqualTo ''6.0.0'' ''6.0.0''
   \<and> handleDeepLink exParseURL exGetView exDeepLink (exStateV ''6.0.0'')
       = Inr ((exStateV ''6.0.0'')\<lparr>effects := [SendHistoryPush 0 ''/team/channels/town'']\<rparr>)
   \<and> exGetView exParsed (configServers (exStateV ''5.9.0'')) = Some exTab
   \<and> map_of (closedViews (exStateV ''5.9.0'')) (tv_name exTab) = None
   \<and> map_of (views (exStateV ''5.9.0'')) (tv_name exTab) = Some (exViewMsgV ''5.9.0'')
   \<and> view_name (exViewMsgV ''5.9.0'') = tv_name exTab
   \<and> serverVersion (serverInfo (exViewMsgV ''5.9.0'')) = Some ''5.9.0''
   \<and> \<not> isVersionGreaterThanOrEqualTo ''5.9.0'' ''6.0.0''
   \<and> handleDeepLink exParseURL exGetView exDeepLink (exStateV ''5.9.0'')
       = Inr (deepLinkReload ''A:TAB_MESSAGING'' ''https://a.example.com/team/channels/town''
                (exStateV ''5.9.0''))
   \<and> effects (deepLinkReload ''A:TAB_MESSAGING'' ''https://a.example.com/team/channels/town''
                (exStateV ''5.9.0''))
       = [ViewLoad 0 (Some ''https://a.example.com/team/channels/town'')]
   \<and> map_of (views (deepLinkReload ''A:TAB_MESSAGING'' ''https://a.example.com/team/channels/town''
                (exStateV ''5.9.0''))) ''A:TAB_MESSAGING''
       = Some ((exViewMsgV ''5.9.0'')\<lparr>status := Loading, onLoadSuccess := [Once H_deeplinkSuccess],
                 onLoadFailed := [On H_failLoading, Once H_deeplinkFailed]\<rparr>)
   \<and> map_of (listenerLists (emitLoadSuccess ''A:TAB_MESSAGING''
          (deepLinkReload ''A:TAB_MESSAGING'' ''https://a.example.com/team/channels/town''
             (exStateV ''5.9.0'')))) ''A:TAB_MESSAGING''
       = Some ([], [On H_failLoading])
   \<and> map_of (listenerLists (emitLoadFailed ''A:TAB_MESSAGING''
          (deepLinkReload ''A:TAB_MESSAGING'' ''https://a.example.com/team/channels/town''
             (exStateV ''5.9.0'')))) ''A:TAB_MESSAGING''
       = Some ([], [On H_failLoading])"
proof -
  have u: "exDeepLink \<noteq> []" by code_simp
  have p: "exParseURL exDeepLink = Some exParsed" by code_simp
  have t6: "exGetView exParsed (configServers (exStateV ''6.0.0'')) = Some exTab" by code_simp
  have c6: "map_of (closedViews (exStateV ''6.0.0'')) (tv_name exTab) = None" by code_simp
  have l6: "map_of (views (exStateV ''6.0.0'')) (tv_name exTab) = Some (exViewMsgV ''6.0.0'')"
    by code_simp
  have n6: "view_name (exViewMsgV ''6.0.0'') = tv_name exTab" by code_simp
  have i6: "isInitialized (exViewMsgV ''6.0.0'')" by code_simp
  have v6: "serverVersion (serverInfo (exViewMsgV ''6.0.0'')) = Some ''6.0.0''" by code_simp
  have g6: "isVersionGreaterThanOrEqualTo ''6.0.0'' ''6.0.0''" by code_simp
  have t5: "exGetView exParsed (configServers (exStateV ''5.9.0'')) = Some exTab" by code_simp
  have c5: "map_of (closedViews (exStateV ''5.9.0'')) (tv_name exTab) = None" by code_simp
  have l5: "map_of (views (exStateV ''5.9.0'')) (tv_name exTab) = Some (exViewMsgV ''5.9.0'')"
    by code_simp
  have n5: "view_name (exViewMsgV ''5.9.0'') = tv_name exTab" by code_simp
  have v5: "serverVersion (serverInfo (exViewMsgV ''5.9.0'')) = Some ''5.9.0''" by code_simp
  have g5: "\<not> isVersionGreaterThanOrEqualTo ''5.9.0'' ''6.0.0''" by code_simp
  have nm: "tv_name exTab = ''A:TAB_MESSAGING''" by code_simp
  have tg: "(case exParseURL (tv_url exTab) of None \<Rightarrow> ''undefined'' | Some u \<Rightarrow> url_origin u)
        @ url_pathname exParsed @ url_search exParsed
      = ''https://a.example.com/team/channels/town''" by code_simp
  note a = handleDeepLink_version_gate [where parseURL = exParseURL and getView = exGetView,
      OF u p t6 c6 l6 n6, unfolded tg nm]
  note b = handleDeepLink_version_gate [where parseURL = exParseURL and getView = exGetView,
      OF u p t5 c5 l5 n5, unfolded tg nm]
  have x6: "deeplinkSuccess ''A:TAB_MESSAGING''
              (emitEffect (SendHistoryPush (surface (exViewMsgV ''6.0.0''))
                 (''/'' @ replaceFirst (srv_url (tab_server (exViewMsgV ''6.0.0''))) []
                    ''https://a.example.com/team/channels/town'')) (exStateV ''6.0.0''))
      = (exStateV ''6.0.0'')\<lparr>effects := [SendHistoryPush 0 ''/team/channels/town'']\<rparr>"
    by code_simp
  from a i6 v6 g6 have "handleDeepLink exParseURL exGetView exDeepLink (exStateV ''6.0.0'')
      = Inr (deeplinkSuccess ''A:TAB_MESSAGING''
              (emitEffect (SendHistoryPush (surface (exViewMsgV ''6.0.0''))
                 (''/'' @ replaceFirst (srv_url (tab_server (exViewMsgV ''6.0.0''))) []
                    ''https://a.example.com/team/channels/town'')) (exStateV ''6.0.0'')))"
    by blast
  then have r6: "handleDeepLink exParseURL exGetView exDeepLink (exStateV ''6.0.0'')
       = Inr ((exStateV ''6.0.0'')\<lparr>effects := [SendHistoryPush 0 ''/team/channels/town'']\<rparr>)"
    by (simp only: x6)
  let ?s1 = "deepLinkReload ''A:TAB_MESSAGING'' ''https://a.example.com/team/channels/town''
                (exStateV ''5.9.0'')"
  from v5 g5 have d5: "\<not> isInitialized (exViewMsgV ''5.9.0'')
      \<or> serverVersion (serverInfo (exViewMsgV ''5.9.0'')) = None
      \<or> (\<exists>ver. serverVersion (serverInfo (exViewMsgV ''5.9.0'')) = Some ver
            \<and> \<not> isVersionGreaterThanOrEqualTo ver ''6.0.0'')"
    by blast
  from b d5 have r5: "handleDeepLink exParseURL exGetView exDeepLink (exStateV ''5.9.0'') = Inr ?s1"
    and e5: "effects ?s1 = effects (exStateV ''5.9.0'')
          @ [ViewLoad (surface (exViewMsgV ''5.9.0'')) (Some ''https://a.example.com/team/channels/town'')]"
    and w5: "map_of (views ?s1) ''A:TAB_MESSAGING''
       = Some ((exViewMsgV ''5.9.0'')\<lparr>status := Loading,
                 onLoadSuccess := onLoadSuccess (exViewMsgV ''5.9.0'') @ [Once H_deeplinkSuccess],
                 onLoadFailed := onLoadFailed (exViewMsgV ''5.9.0'') @ [Once H_deeplinkFailed]\<rparr>)"
    and s5: "map_of (listenerLists (emitLoadSuccess ''A:TAB_MESSAGING'' ?s1)) ''A:TAB_MESSAGING''
       = Some ((removeListener H_deeplinkSuccess
                         ^^ countHandler H_deeplinkFailed (onLoadSuccess (exViewMsgV ''5.9.0'')))
                        (filter (\<lambda>l. \<not> is_once l) (onLoadSuccess (exViewMsgV ''5.9.0''))),
                      (removeListener H_deeplinkFailed
                         ^^ countHandler H_deeplinkSuccess (onLoadSuccess (exViewMsgV ''5.9.0'')))
                        (onLoadFailed (exViewMsgV ''5.9.0'')))"
    and f5: "map_of (listenerLists (emitLoadFailed ''A:TAB_MESSAGING'' ?s1)) ''A:TAB_MESSAGING''
       = Some ((removeListener H_deeplinkSuccess
                         ^^ countHandler H_deeplinkFailed (onLoadFailed (exViewMsgV ''5.9.0'')))
                        (onLoadSuccess (exViewMsgV ''5.9.0'')),
                      (removeListener H_deeplinkFailed
                         ^^ countHandler H_deeplinkSuccess (onLoadFailed (exViewMsgV ''5.9.0'')))
                        (filter (\<lambda>l. \<not> is_once l) (onLoadFailed (exViewMsgV ''5.9.0''))))"
    by blast+
  have ls: "onLoadSuccess (exViewMsgV ''5.9.0'') = []"
    "onLoadFailed (exViewMsgV ''5.9.0'') = [On H_failLoading]"
    "effects (exStateV ''5.9.0'') = []" "surface (exViewMsgV ''5.9.0'') = 0"
    by code_simp+
  have e5': "effects ?s1 = [ViewLoad 0 (Some ''https://a.example.com/team/channels/town'')]"
    using e5 by (simp add: ls)
  have w5': "map_of (views ?s1) ''A:TAB_MESSAGING''
       = Some ((exViewMsgV ''5.9.0'')\<lparr>status := Loading, onLoadSuccess := [Once H_deeplinkSuccess],
                 onLoadFailed := [On H_failLoading, Once H_deeplinkFailed]\<rparr>)"
    using w5 by (simp add: ls)
  have s5': "map_of (listenerLists (emitLoadSuccess ''A:TAB_MESSAGING'' ?s1)) ''A:TAB_MESSAGING''
       = Some ([], [On H_failLoading])"
    using s5 by (simp add: ls countHandler_def)
  have f5': "map_of (listenerLists (emitLoadFailed ''A:TAB_MESSAGING'' ?s1)) ''A:TAB_MESSAGING''
       = Some ([], [On H_failLoading])"
    using f5 by (simp add: ls countHandler_def)
  show ?thesis
    by (intro conjI u p t6 c6 l6 n6 i6 v6 g6 r6 t5 c5 l5 n5 v5 g5 r5 e5' w5' s5' f5')
qed

subsection \<open>Reopening a closed tab\<close>

lemma makeView_eq:
  "makeView srv info tab url s =
     (madeView (nextSurface s) srv info tab,
      s\<lparr>closedViews := AList.delete (getTabViewName (srv_name srv) (tab_name tab)) (closedViews s),
        nextSurface := Suc (nextSurface s),
        effects := effects s @ [ViewLoad (nextSurface s) url]\<rparr>)"
  by (simp add: makeView_def madeView_def Let_def emitEffect_def newMattermostView_def view_load_def)

lemma view_name_madeView [simp]:
  "view_name (madeView i srv info tab) = getTabViewName (srv_name srv) (tab_name tab)"
  by (simp add: madeView_def view_name_def view_load_def newMattermostView_def)

lemma madeView_fields [simp]:
  "surface (madeView i srv info tab) = i"
  "isVisible (madeView i srv info tab) = False"
  "status (madeView i srv info tab) = Loading"
  "loadedOnce (madeView i srv info tab) = False"
  "onLoadSuccess (madeView i srv info tab) = [Once H_activateView]"
  "onLoadFailed (madeView i srv info tab) = [On H_failLoading]"
  "view_tuple (madeView i srv info tab) = (srv_url srv, tab_name tab)"
  by (simp_all add: madeView_def view_load_def newMattermostView_def view_tuple_def)

lemma loadView_open:
  assumes "tab_isOpen tab"
  shows "loadView srv info tab place url s =
     s\<lparr>closedViews := AList.delete (getTabViewName (srv_name srv) (tab_name tab)) (closedViews s),
       nextSurface := Suc (nextSurface s),
       effects := effects s @ [ViewLoad (nextSurface s) url],
       views := AList.update (getTabViewName (srv_name srv) (tab_name tab))
                  (madeView (nextSurface s) srv info tab) (views s),
       loadingScreen := True\<rparr>"
  using assms by (simp add: loadView_def makeView_eq addView_def)

lemma closedViews_showByName [simp]: "closedViews (showByName n s) = closedViews s"
  by (simp add: showByName_def notifyActive_def showTarget_def setCurrent_def hidePrevious_def
      showLoadingScreen_def emitEffect_def Let_def split: option.splits)

lemma effects_showByName_prefix: "\<exists>es. effects (showByName n s) = effects s @ es"
  by (simp add: showByName_def notifyActive_def showTarget_def setCurrent_def hidePrevious_def
      showLoadingScreen_def emitEffect_def Let_def split: option.splits)

lemma showByName_shows_hidden:
  assumes "map_of (views s) n = Some v" "\<not> isVisible v" "\<not> isErrored v"
  shows "map_of (views (showByName n s)) n = Some (v\<lparr>isVisible := True\<rparr>)"
    and "currentView (showByName n s) = Some n"
proof -
  have eq: "showByName n s = notifyActive v (showTarget n v (setCurrent n (hidePrevious n s)))"
    using assms by (simp add: showByName_hidden_target)
  show "map_of (views (showByName n s)) n = Some (v\<lparr>isVisible := True\<rparr>)"
    unfolding eq using assms by (simp add: map_of_showTarget map_of_hidePrevious view_show_def)
  show "currentView (showByName n s) = Some n"
    unfolding eq by (simp add: showTarget_def Let_def)
qed

lemma configServers_showByName [simp]: "configServers (showByName n s) = configServers s"
  by (simp add: showByName_def notifyActive_def showTarget_def setCurrent_def hidePrevious_def
      showLoadingScreen_def emitEffect_def Let_def split: option.splits)

lemma delete_map_entry: "AList.delete k (AList.map_entry k f al) = AList.delete k al"
  by (induction al) auto

lemma setTabOpen_eq:
  assumes "map_of (closedViews s) name = Some (srv, tab, place)"
  shows "setTabOpen name s =
     s\<lparr>configServers := markOpen place (configServers s),
       closedViews := AList.map_entry name (\<lambda>r. (srv, tab\<lparr>tab_isOpen := True\<rparr>, place))
                        (closedViews s)\<rparr>"
  using assms by (simp add: setTabOpen_def)

lemma openClosedTab_state:
  assumes c: "map_of (closedViews s) name = Some (srv, tab, place)"
    and n: "getTabViewName (srv_name srv) (tab_name tab) = name"
  defines "v0 \<equiv> madeView (nextSurface s) srv (newServerInfo srv) (tab\<lparr>tab_isOpen := True\<rparr>)"
  shows "\<exists>s' es. openClosedTab name url s = Inr s'
        \<and> closedViews s' = AList.delete name (closedViews s)
        \<and> configServers s' = markOpen place (configServers s)
        \<and> map_of (views s') name
            = Some (v0\<lparr>isVisible := True,
                        onLoadSuccess := [Once H_activateView, On (H_reshow name)]\<rparr>)
        \<and> currentView s' = Some name
        \<and> effects s' = effects s @ [ViewLoad (nextSurface s) url] @ es
                          @ [EmitOpenTab (srv_name srv) (tab_name tab)]"
proof -
  let ?tab = "tab\<lparr>tab_isOpen := True\<rparr>"
  let ?s0 = "setTabOpen name s"
  let ?s1 = "loadView srv (newServerInfo srv) ?tab place url ?s0"
  let ?s2 = "showByName name ?s1"
  have nm: "getTabViewName (srv_name srv) (tab_name ?tab) = name" using n by simp
  have s0: "?s0 = s\<lparr>configServers := markOpen place (configServers s),
       closedViews := AList.map_entry name (\<lambda>r. (srv, ?tab, place)) (closedViews s)\<rparr>"
    by (rule setTabOpen_eq [OF c])
  have s1: "?s1 = s\<lparr>configServers := markOpen place (configServers s),
       closedViews := AList.delete name (closedViews s),
       nextSurface := Suc (nextSurface s),
       effects := effects s @ [ViewLoad (nextSurface s) url],
       views := AList.update name v0 (views s),
       loadingScreen := True\<rparr>"
    using loadView_open [of ?tab srv "newServerInfo srv" place url ?s0] nm
    by (simp add: v0_def s0 delete_map_entry)
  have v1: "map_of (views ?s1) name = Some v0" unfolding s1 by (simp add: AList.update_conv')
  have h: "\<not> isVisible v0" "\<not> isErrored v0" by (simp_all add: v0_def isErrored_def)
  have v2: "map_of (views ?s2) name = Some (v0\<lparr>isVisible := True\<rparr>)"
    and c2: "currentView ?s2 = Some name"
    using showByName_shows_hidden [OF v1 h] by simp_all
  have cl2: "closedViews ?s2 = AList.delete name (closedViews s)" unfolding s1 by simp
  have cf2: "configServers ?s2 = markOpen place (configServers s)" unfolding s1 by simp
  obtain es where es: "effects ?s2 = effects ?s1 @ es" using effects_showByName_prefix by blast
  have e1: "effects ?s1 = effects s @ [ViewLoad (nextSurface s) url]" by (simp add: s1)
  have e2: "effects ?s2 = effects s @ [ViewLoad (nextSurface s) url] @ es" using es e1 by simp
  let ?s3 = "emitEffect (EmitOpenTab (srv_name srv) (tab_name tab))
               (?s2\<lparr>views := AList.map_entry name
                    (\<lambda>v. v\<lparr>isVisible := True,
                            onLoadSuccess := onLoadSuccess v @ [On (H_reshow name)]\<rparr>)
                    (views ?s2)\<rparr>)"
  have r: "openClosedTab name url s = Inr ?s3"
    using c v2 by (simp add: openClosedTab_def Let_def)
  have "map_of (views ?s3) name
      = Some (v0\<lparr>isVisible := True, onLoadSuccess := [Once H_activateView, On (H_reshow name)]\<rparr>)"
    using v2 by (simp add: map_of_map_entry v0_def emitEffect_def)
  moreover have "closedViews ?s3 = AList.delete name (closedViews s)"
    using cl2 by (simp add: emitEffect_def)
  moreover have "configServers ?s3 = markOpen place (configServers s)"
    using cf2 by (simp add: emitEffect_def)
  moreover have "currentView ?s3 = Some name" using c2 by (simp add: emitEffect_def)
  moreover have "effects ?s3 = effects s @ [ViewLoad (nextSurface s) url] @ es
                          @ [EmitOpenTab (srv_name srv) (tab_name tab)]"
    using e2 by (simp add: emitEffect_def)
  ultimately show ?thesis using r by blast
qed

lemma showByName_visible_noop:
  "map_of (views s) n = Some v \<Longrightarrow> isVisible v \<Longrightarrow> showByName n s = s"
  by (simp add: showByName_def)

lemma emitLoadSuccess_reshow:
  assumes v: "map_of (views s) name = Some v" and nm: "view_name v = name"
    and vis: "isVisible v" and cur: "currentView s = Some name"
    and ls: "onLoadSuccess v = [Once H_activateView, On (H_reshow name)]"
  shows "currentView (emitLoadSuccess name s) = Some name"
    and "map_of (views (emitLoadSuccess name s)) name
        = Some (v\<lparr>status := Ready, loadedOnce := True, onLoadSuccess := [On (H_reshow name)]\<rparr>)"
proof -
  let ?v1 = "v\<lparr>status := Ready, loadedOnce := True, onLoadSuccess := [On (H_reshow name)]\<rparr>"
  let ?s1 = "s\<lparr>views := AList.map_entry name
                      (\<lambda>v. v\<lparr>status := Ready, loadedOnce := True,
                              onLoadSuccess := filter (\<lambda>l. \<not> is_once l) (onLoadSuccess v)\<rparr>)
                      (views s)\<rparr>"
  have v1: "map_of (views ?s1) name = Some ?v1" using v ls by (simp add: map_of_map_entry)
  have c1: "currentView ?s1 = Some name" using cur by simp
  have "showByName name ?s1 = ?s1"
    by (rule showByName_visible_noop [OF v1]) (simp add: vis)
  then have a: "activateView name ?s1 = emitEffect (AddWebContentsEventListeners (surface v)) ?s1"
    using c1 v1 by (simp add: activateView_def Let_def)
  let ?s2 = "emitEffect (AddWebContentsEventListeners (surface v)) ?s1"
  let ?s3 = "?s2\<lparr>views := AList.map_entry name (\<lambda>v. v\<lparr>isVisible := False\<rparr>) (views ?s2)\<rparr>"
  have v3: "map_of (views ?s3) name = Some (?v1\<lparr>isVisible := False\<rparr>)"
    using v1 by (simp add: map_of_map_entry)
  have e: "emitLoadSuccess name s = showByName name ?s3"
    using v ls nm a by (simp add: emitLoadSuccess_def Let_def)
  have h: "\<not> isVisible (?v1\<lparr>isVisible := False\<rparr>)" "\<not> isErrored (?v1\<lparr>isVisible := False\<rparr>)"
    by (simp_all add: isErrored_def)
  show "currentView (emitLoadSuccess name s) = Some name"
    unfolding e by (rule showByName_shows_hidden(2) [OF v3 h])
  have "map_of (views (showByName name ?s3)) name = Some (?v1\<lparr>isVisible := False\<rparr>\<lparr>isVisible := True\<rparr>)"
    by (rule showByName_shows_hidden(1) [OF v3 h])
  then show "map_of (views (emitLoadSuccess name s)) name = Some ?v1"
    unfolding e using vis by simp
qed

text \<open>
  C6, as stated, fails: after \<^verbatim>\<open>openClosedTab\<close> the reopened view is marked visible
  (\<^verbatim>\<open>view.isVisible = true\<close>), not hidden, while it is loading.
\<close>

theorem openClosedTab_hidden_counterexample:
  "map_of (closedViews exStateClosed) ''A:TAB_FOCALBOARD''
     = Some (exSrvA, exTabBoardClosed, Some (0, 1))
   \<and> openClosedTab ''A:TAB_FOCALBOARD'' None exStateClosed = Inr exReopened
   \<and> visibility exReopened = [(''A:TAB_MESSAGING'', False), (''A:TAB_FOCALBOARD'', True)]
   \<and> map_option status (map_of (views exReopened) ''A:TAB_FOCALBOARD'') = Some Loading"
  by code_simp

text \<open>
  C6, amended. For a name in \<^verbatim>\<open>closedViews\<close> (stored under the name derived from its
  record), \<^verbatim>\<open>openClosedTab\<close> removes the record, marks the tab open (the \<^verbatim>\<open>isOpen\<close> flag
  of the \<^verbatim>\<open>Tab\<close> object is set, in \<^verbatim>\<open>this.configServers\<close> when the object is the tab \<open>j\<close>
  of the server \<open>i\<close> there, and \<^verbatim>\<open>OPEN_TAB\<close> is emitted last), puts a new view under that
  name into \<^verbatim>\<open>views\<close>, starts loading it and makes it the current view; until
  \<^verbatim>\<open>LOAD_SUCCESS\<close> the view is loading and marked visible. At \<^verbatim>\<open>LOAD_SUCCESS\<close> the
  registered listener resets the flag and shows the view again: it is then ready,
  visible and current.
\<close>

theorem openClosedTab_reopens:
  assumes c: "map_of (closedViews s) name = Some (srv, tab, place)"
    and n: "getTabViewName (srv_name srv) (tab_name tab) = name"
  shows "\<exists>s' v es. openClosedTab name url s = Inr s'
        \<and> map_of (closedViews s') name = None
        \<and> configServers s' =
            (case place of
               None \<Rightarrow> configServers s
             | Some (i, j) \<Rightarrow>
                 (configServers s)[i := (configServers s ! i)
                   \<lparr>team_tabs := (team_tabs (configServers s ! i))
                      [j := (team_tabs (configServers s ! i) ! j)\<lparr>tab_isOpen := True\<rparr>]\<rparr>])
        \<and> effects s' = effects s @ [ViewLoad (nextSurface s) url] @ es
                          @ [EmitOpenTab (srv_name srv) (tab_name tab)]
        \<and> map_of (views s') name = Some v
        \<and> surface v = nextSurface s \<and> tab_server v = srv \<and> tab_type v = tab_name tab
        \<and> isVisible v \<and> status v = Loading \<and> needsLoadingScreen v
        \<and> currentView s' = Some name
        \<and> currentView (emitLoadSuccess name s') = Some name
        \<and> map_of (views (emitLoadSuccess name s')) name
            = Some (v\<lparr>status := Ready, loadedOnce := True, onLoadSuccess := [On (H_reshow name)]\<rparr>)"
proof -
  let ?v0 = "madeView (nextSurface s) srv (newServerInfo srv) (tab\<lparr>tab_isOpen := True\<rparr>)"
  let ?v = "?v0\<lparr>isVisible := True, onLoadSuccess := [Once H_activateView, On (H_reshow name)]\<rparr>"
  obtain s' es where r: "openClosedTab name url s = Inr s'"
    and cl: "closedViews s' = AList.delete name (closedViews s)"
    and cf: "configServers s' = markOpen place (configServers s)"
    and v: "map_of (views s') name = Some ?v"
    and cur: "currentView s' = Some name"
    and ef: "effects s' = effects s @ [ViewLoad (nextSurface s) url] @ es
                          @ [EmitOpenTab (srv_name srv) (tab_name tab)]"
    using openClosedTab_state [OF c n, of url] by blast
  have nm: "view_name ?v = name"
    using n by (simp add: view_name_def madeView_def view_load_def newMattermostView_def)
  have "map_of (closedViews s') name = None" unfolding cl by (simp add: AList.delete_conv')
  moreover have "configServers s' =
            (case place of
               None \<Rightarrow> configServers s
             | Some (i, j) \<Rightarrow>
                 (configServers s)[i := (configServers s ! i)
                   \<lparr>team_tabs := (team_tabs (configServers s ! i))
                      [j := (team_tabs (configServers s ! i) ! j)\<lparr>tab_isOpen := True\<rparr>]\<rparr>])"
    unfolding cf by (simp add: markOpen_def)
  moreover have "surface ?v = nextSurface s" "isVisible ?v" "status ?v = Loading"
    "needsLoadingScreen ?v" "tab_server ?v = srv" "tab_type ?v = tab_name tab"
    by (simp_all add: needsLoadingScreen_def madeView_def view_load_def newMattermostView_def)
  moreover have "currentView (emitLoadSuccess name s') = Some name"
    by (rule emitLoadSuccess_reshow(1) [OF v nm _ cur]) simp_all
  moreover have "map_of (views (emitLoadSuccess name s')) name
            = Some (?v\<lparr>status := Ready, loadedOnce := True, onLoadSuccess := [On (H_reshow name)]\<rparr>)"
    by (rule emitLoadSuccess_reshow(2) [OF v nm _ cur]) simp_all
  ultimately show ?thesis using r v cur ef by blast
qed

theorem openClosedTab_reopens_witness:
  "map_of (closedViews exStateClosed) ''A:TAB_FOCALBOARD''
     = Some (exSrvA, exTabBoardClosed, Some (0, 1))
   \<and> getTabViewName (srv_name exSrvA) (tab_name exTabBoardClosed) = ''A:TAB_FOCALBOARD''
   \<and> configServers exStateClosed = [exTeam ''A'' ''https://a.example.com/'' 0 (exTabs True False)]
   \<and> nextSurface exStateClosed = 1
   \<and> (\<exists>s' v es. openClosedTab ''A:TAB_FOCALBOARD'' None exStateClosed = Inr s'
        \<and> map_of (closedViews s') ''A:TAB_FOCALBOARD'' = None
        \<and> configServers s' = [exTeam ''A'' ''https://a.example.com/'' 0 (exTabs True True)]
        \<and> effects s' = effects exStateClosed @ [ViewLoad 1 None] @ es
                          @ [EmitOpenTab ''A'' TAB_FOCALBOARD]
        \<and> map_of (views s') ''A:TAB_FOCALBOARD'' = Some v
        \<and> surface v = 1 \<and> tab_server v = exSrvA \<and> tab_type v = TAB_FOCALBOARD
        \<and> isVisible v \<and> status v = Loading \<and> needsLoadingScreen v
        \<and> currentView s' = Some ''A:TAB_FOCALBOARD''
        \<and> currentView (emitLoadSuccess ''A:TAB_FOCALBOARD'' s') = Some ''A:TAB_FOCALBOARD''
        \<and> map_of (views (emitLoadSuccess ''A:TAB_FOCALBOARD'' s')) ''A:TAB_FOCALBOARD''
            = Some (v\<lparr>status := Ready, loadedOnce := True,
                       onLoadSuccess := [On (H_reshow ''A:TAB_FOCALBOARD'')]\<rparr>))"
proof -
  have a: "map_of (closedViews exStateClosed) ''A:TAB_FOCALBOARD''
     = Some (exSrvA, exTabBoardClosed, Some (0, 1))"
    by code_simp
  have b: "getTabViewName (srv_name exSrvA) (tab_name exTabBoardClosed) = ''A:TAB_FOCALBOARD''"
    by code_simp
  have cf: "configServers exStateClosed = [exTeam ''A'' ''https://a.example.com/'' 0 (exTabs True False)]"
    by code_simp
  have nx: "nextSurface exStateClosed = 1" by code_simp
  have sn: "srv_name exSrvA = ''A''" "tab_name exTabBoardClosed = TAB_FOCALBOARD" by code_simp+
  have mk: "[exTeam ''A'' ''https://a.example.com/'' 0 (exTabs True False)]
      [0 := ([exTeam ''A'' ''https://a.example.com/'' 0 (exTabs True False)] ! 0)
         \<lparr>team_tabs := (team_tabs ([exTeam ''A'' ''https://a.example.com/'' 0 (exTabs True False)] ! 0))
            [1 := (team_tabs ([exTeam ''A'' ''https://a.example.com/'' 0 (exTabs True False)] ! 0) ! 1)
               \<lparr>tab_isOpen := True\<rparr>]\<rparr>]
      = [exTeam ''A'' ''https://a.example.com/'' 0 (exTabs True True)]"
    by (simp add: exTeam_def exTabs_def)
  have main: "\<exists>s' v es. openClosedTab ''A:TAB_FOCALBOARD'' None exStateClosed = Inr s'
        \<and> map_of (closedViews s') ''A:TAB_FOCALBOARD'' = None
        \<and> configServers s' = [exTeam ''A'' ''https://a.example.com/'' 0 (exTabs True True)]
        \<and> effects s' = effects exStateClosed @ [ViewLoad 1 None] @ es
                          @ [EmitOpenTab ''A'' TAB_FOCALBOARD]
        \<and> map_of (views s') ''A:TAB_FOCALBOARD'' = Some v
        \<and> surface v = 1 \<and> tab_server v = exSrvA \<and> tab_type v = TAB_FOCALBOARD
        \<and> isVisible v \<and> status v = Loading \<and> needsLoadingScreen v
        \<and> currentView s' = Some ''A:TAB_FOCALBOARD''
        \<and> currentView (emitLoadSuccess ''A:TAB_FOCALBOARD'' s') = Some ''A:TAB_FOCALBOARD''
        \<and> map_of (views (emitLoadSuccess ''A:TAB_FOCALBOARD'' s')) ''A:TAB_FOCALBOARD''
            = Some (v\<lparr>status := Ready, loadedOnce := True,
                       onLoadSuccess := [On (H_reshow ''A:TAB_FOCALBOARD'')]\<rparr>)"
    using openClosedTab_reopens [OF a b, of None] mk by (simp add: cf nx sn)
  show ?thesis by (intro conjI a b cf nx main)
qed

subsection \<open>Maps built from lists\<close>

lemma foldl_update_map_of:
  "map_of (foldl (\<lambda>m (k, v). AList.update k v m) m xs) = map_of m ++ map_of (rev xs)"
proof (induction xs arbitrary: m)
  case Nil
  then show ?case by simp
next
  case (Cons x xs)
  obtain k v where x: "x = (k, v)" by (cases x)
  have "map_of (foldl (\<lambda>m (k, v). AList.update k v m) (AList.update k v m) xs)
      = map_of (AList.update k v m) ++ map_of (rev xs)" by (rule Cons.IH)
  also have "\<dots> = map_of m ++ map_of (rev xs @ [(k, v)])"
    by (simp add: AList.update_conv' map_add_def fun_eq_iff split: option.splits)
  finally show ?case using x by simp
qed

lemma foldl_update_distinct:
  "distinct (map fst m) \<Longrightarrow> distinct (map fst (foldl (\<lambda>m (k, v). AList.update k v m) m xs))"
proof (induction xs arbitrary: m)
  case Nil
  then show ?case by simp
next
  case (Cons x xs)
  obtain k v where x: "x = (k, v)" by (cases x)
  have "distinct (map fst (AList.update k v m))" using Cons.prems by (rule AList.distinct_update)
  then show ?case using Cons.IH x by simp
qed

lemma set_update_subset: "set (AList.update k v m) \<subseteq> insert (k, v) (set m)"
  by (induction m) auto

lemma foldl_update_subset:
  "set (foldl (\<lambda>m (k, v). AList.update k v m) m xs) \<subseteq> set m \<union> set xs"
proof (induction xs arbitrary: m)
  case Nil
  then show ?case by simp
next
  case (Cons x xs)
  obtain k v where x: "x = (k, v)" by (cases x)
  have "set (foldl (\<lambda>m (k, v). AList.update k v m) (AList.update k v m) xs)
      \<subseteq> set (AList.update k v m) \<union> set xs" by (rule Cons.IH)
  then show ?case using set_update_subset [of k v m] x by auto
qed

lemma foldl_update_keys:
  "fst ` set (foldl (\<lambda>m (k, v). AList.update k v m) m xs) = fst ` set m \<union> fst ` set xs"
proof (induction xs arbitrary: m)
  case Nil
  then show ?case by simp
next
  case (Cons x xs)
  obtain k v where x: "x = (k, v)" by (cases x)
  have "fst ` set (foldl (\<lambda>m (k, v). AList.update k v m) (AList.update k v m) xs)
      = fst ` set (AList.update k v m) \<union> fst ` set xs" by (rule Cons.IH)
  then show ?case using x by (simp add: AList.dom_update Un_commute insert_commute)
qed

lemma update_fresh: "k \<notin> fst ` set m \<Longrightarrow> AList.update k v m = m @ [(k, v)]"
  by (induction m) auto

lemma foldl_update_fresh:
  "distinct (map fst (m @ xs)) \<Longrightarrow> foldl (\<lambda>m (k, v). AList.update k v m) m xs = m @ xs"
proof (induction xs arbitrary: m)
  case Nil
  then show ?case by simp
next
  case (Cons x xs)
  obtain k v where x: "x = (k, v)" by (cases x)
  have f: "k \<notin> fst ` set m" using Cons.prems x by auto
  have d: "distinct (map fst ((m @ [(k, v)]) @ xs))" using Cons.prems x by simp
  have "foldl (\<lambda>m (k, v). AList.update k v m) (m @ [(k, v)]) xs = (m @ [(k, v)]) @ xs"
    by (rule Cons.IH [OF d])
  then show ?case using x update_fresh [OF f] by simp
qed

lemma mapFrom_map_of: "map_of (mapFrom xs) = map_of (rev xs)"
  by (simp add: mapFrom_def foldl_update_map_of)

lemma mapFrom_distinct: "distinct (map fst (mapFrom xs))"
  by (simp add: mapFrom_def foldl_update_distinct)

lemma mapFrom_subset: "set (mapFrom xs) \<subseteq> set xs"
  using foldl_update_subset [of "[]" xs] by (simp add: mapFrom_def)

lemma mapFrom_keys: "fst ` set (mapFrom xs) = fst ` set xs"
  using foldl_update_keys [of "[]" xs] by (simp add: mapFrom_def)

lemma mapFrom_distinct_id: "distinct (map fst xs) \<Longrightarrow> mapFrom xs = xs"
  using foldl_update_fresh [of "[]" xs] by (simp add: mapFrom_def)

lemma mapFrom_mem_iff: "(k, v) \<in> set (mapFrom xs) \<longleftrightarrow> map_of (mapFrom xs) k = Some v"
  using mapFrom_distinct [of xs] by simp

lemma map_of_None_iff_keys: "map_of m k = None \<longleftrightarrow> k \<notin> fst ` set m"
  by (simp add: map_of_eq_None_iff)

subsection \<open>The entries of a configuration and the new views\<close>

lemma wfEntry_extraData: "wfEntry ((team_url x, tab_name t), extraData x t)"
  by (simp add: wfEntry_def extraData_def Let_def newMattermostServer_def)

lemma configEntries_wf: "e \<in> set (configEntries servers) \<Longrightarrow> wfEntry e"
  by (auto simp: configEntries_def wfEntry_extraData)

lemma openEntries_subset: "set (openEntries servers) \<subseteq> set (configEntries servers)"
  by (auto simp: openEntries_def)

lemma openEntries_wf: "e \<in> set (openEntries servers) \<Longrightarrow> wfEntry e"
  using openEntries_subset configEntries_wf by blast

lemma closedEntries_eq:
  "closedEntries servers = mapFrom (filter (\<lambda>x. \<not> ed_open (snd x)) (configEntries servers))"
  by (simp add: closedEntries_def comp_def)

lemma openEntries_eq:
  "openEntries servers = filter (\<lambda>x. ed_open (snd x)) (configEntries servers)"
  by (simp add: openEntries_def)

lemma closedEntries_subset: "set (closedEntries servers) \<subseteq> set (configEntries servers)"
  using mapFrom_subset [of "filter (\<lambda>x. \<not> ed_open (snd x)) (configEntries servers)"]
  by (auto simp: closedEntries_eq)

lemma currentByTuple_keyed: "tupleKeyed (currentByTuple s)"
proof -
  have "set (currentByTuple s) \<subseteq> set (map (\<lambda>(n, x). (view_tuple x, x)) (views s))"
    unfolding currentByTuple_def by (rule mapFrom_subset)
  then show ?thesis by (auto simp: tupleKeyed_def list_all_iff)
qed

lemma tupleKeyed_lookup: "tupleKeyed m \<Longrightarrow> map_of m t = Some v \<Longrightarrow> view_tuple v = t"
  by (auto simp: tupleKeyed_def list_all_iff dest: map_of_SomeD)

lemma view_tuple_recycled:
  "view_tuple (r\<lparr>serverInfo := i, tab_server := srv\<rparr>) = (srv_url srv, snd (view_tuple r))"
  by (simp add: view_tuple_def)

lemma view_name_recycled:
  "view_name (r\<lparr>serverInfo := i, tab_server := srv\<rparr>) = getTabViewName (srv_name srv) (snd (view_tuple r))"
  by (simp add: view_name_def view_tuple_def)

lemma newOrRecycledEntry_sound:
  assumes wf: "wfEntry e" and k: "tupleKeyed cur"
    and r: "newOrRecycledEntry cur e s = ((t, v), s1)"
  shows "t = fst e" "view_tuple v = fst e" "view_name v = ed_view (snd e)"
proof -
  show "t = fst e" using r
    by (auto simp: newOrRecycledEntry_def makeView_eq split: option.splits)
  show "view_tuple v = fst e"
  proof (cases "map_of cur (fst e)")
    case None
    then show ?thesis using r wf
      by (auto simp: newOrRecycledEntry_def makeView_eq wfEntry_def)
  next
    case (Some rc)
    have "view_tuple rc = fst e" by (rule tupleKeyed_lookup [OF k Some])
    then show ?thesis using r wf Some
      by (auto simp: newOrRecycledEntry_def view_tuple_recycled wfEntry_def)
  qed
  show "view_name v = ed_view (snd e)"
  proof (cases "map_of cur (fst e)")
    case None
    then show ?thesis using r wf
      by (auto simp: newOrRecycledEntry_def makeView_eq wfEntry_def)
  next
    case (Some rc)
    have "view_tuple rc = fst e" by (rule tupleKeyed_lookup [OF k Some])
    then show ?thesis using r wf Some
      by (auto simp: newOrRecycledEntry_def view_name_recycled wfEntry_def)
  qed
qed

lemma newOrRecycledEntry_frame:
  assumes "newOrRecycledEntry cur e s = (x, s1)"
  shows "views s1 = views s" "currentView s1 = currentView s" "configServers s1 = configServers s"
    "lastActiveServer s1 = lastActiveServer s"
  using assms by (auto simp: newOrRecycledEntry_def makeView_eq split: option.splits)

lemma mapEntries_frame:
  assumes "mapEntries cur es s = (made, s1)"
  shows "views s1 = views s \<and> currentView s1 = currentView s \<and> configServers s1 = configServers s
       \<and> lastActiveServer s1 = lastActiveServer s"
  using assms
proof (induction es arbitrary: s made s1)
  case Nil
  then show ?case by simp
next
  case (Cons e es)
  obtain x sa where a: "newOrRecycledEntry cur e s = (x, sa)" by (cases "newOrRecycledEntry cur e s")
  obtain xs sb where b: "mapEntries cur es sa = (xs, sb)" by (cases "mapEntries cur es sa")
  have "s1 = sb" using Cons.prems a b by simp
  then show ?case using Cons.IH [OF b] newOrRecycledEntry_frame [OF a] by simp
qed

lemma mapEntries_sound:
  assumes "mapEntries cur es s = (made, s1)" "list_all wfEntry es" "tupleKeyed cur"
  shows "list_all2 (\<lambda>e (t, v). t = fst e \<and> view_tuple v = fst e \<and> view_name v = ed_view (snd e)) es made"
  using assms
proof (induction es arbitrary: s made s1)
  case Nil
  then show ?case by simp
next
  case (Cons e es)
  obtain t v sa where a: "newOrRecycledEntry cur e s = ((t, v), sa)"
    by (cases "newOrRecycledEntry cur e s") auto
  obtain xs sb where b: "mapEntries cur es sa = (xs, sb)" by (cases "mapEntries cur es sa")
  have m: "made = (t, v) # xs" using Cons.prems(1) a b by simp
  have wf: "wfEntry e" "list_all wfEntry es" using Cons.prems(2) by simp_all
  have "list_all2 (\<lambda>e (t, v). t = fst e \<and> view_tuple v = fst e \<and> view_name v = ed_view (snd e)) es xs"
    by (rule Cons.IH [OF b wf(2) Cons.prems(3)])
  then show ?case using m newOrRecycledEntry_sound [OF wf(1) Cons.prems(3) a] by simp
qed

lemma list_all2_right_witness:
  "list_all2 P xs ys \<Longrightarrow> y \<in> set ys \<Longrightarrow> \<exists>x \<in> set xs. P x y"
  by (induction rule: list_all2_induct) auto

lemma list_all2_fst_eq:
  "list_all2 (\<lambda>e p. fst p = fst e \<and> Q e p) es made \<Longrightarrow> map fst made = map fst es"
  by (induction rule: list_all2_induct) auto

lemma viewCores_emitEffect [simp]: "viewCores (emitEffect e s) = viewCores s"
  by (simp add: viewCores_def)

lemma viewCores_currentView [simp]: "viewCores (s\<lparr>currentView := c\<rparr>) = viewCores s"
  by (simp add: viewCores_def)

lemma viewCores_visible_entry:
  assumes "\<And>v. (g v)\<lparr>isVisible := False\<rparr> = v\<lparr>isVisible := False\<rparr>"
  shows "viewCores (s\<lparr>views := AList.map_entry k g (views s)\<rparr>) = viewCores s"
  using assms by (simp add: viewCores_def map_map_entry_same)

lemma viewCores_hidePrevious [simp]: "viewCores (hidePrevious n s) = viewCores s"
  by (simp add: hidePrevious_def viewCores_visible_entry view_hide_def split: option.splits)

lemma viewCores_showLoadingScreen [simp]: "viewCores (showLoadingScreen s) = viewCores s"
  by (simp add: viewCores_def)

lemma viewCores_showTarget [simp]: "viewCores (showTarget n w s) = viewCores s"
  by (simp add: showTarget_def Let_def viewCores_visible_entry view_show_def)

lemma viewCores_notifyActive [simp]: "viewCores (notifyActive w s) = viewCores s"
  by (simp add: notifyActive_def Let_def)

lemma viewCores_showByName [simp]: "viewCores (showByName n s) = viewCores s"
  by (simp add: showByName_def setCurrent_def split: option.splits)

lemma viewCores_showInitial [simp]: "viewCores (showInitial s) = viewCores s"
  by (simp add: showInitial_def split: option.splits)

lemma map_of_viewCores:
  "map_of (viewCores s) k = map_option (\<lambda>v. v\<lparr>isVisible := False\<rparr>) (map_of (views s) k)"
  by (simp add: viewCores_def map_of_map)

lemma keys_viewCores: "map fst (viewCores s) = map fst (views s)"
  by (simp add: viewCores_def case_prod_unfold)

lemma same_core_tuple:
  "v\<lparr>isVisible := False\<rparr> = w\<lparr>isVisible := False\<rparr> \<Longrightarrow> view_tuple v = view_tuple w"
  by (metis (no_types) MattermostView.select_convs(2,3) MattermostView.surjective MattermostView.update_convs(5) view_tuple_def)

lemma key_set_showByName [simp]: "fst ` set (views (showByName n s)) = fst ` set (views s)"
  using keys_showByName [of n s] by (metis set_map)

lemma key_set_showInitial [simp]: "fst ` set (views (showInitial s)) = fst ` set (views s)"
  by (simp add: showInitial_def split: option.splits)

lemma currentIsLive_showByName: "currentIsLive s \<Longrightarrow> currentIsLive (showByName n s)"
proof (cases "map_of (views s) n")
  case None
  assume "currentIsLive s"
  then show ?thesis using None by (simp add: showByName_def currentIsLive_def split: option.splits)
next
  case (Some w)
  assume l: "currentIsLive s"
  show ?thesis
  proof (cases "isVisible w")
    case True
    then show ?thesis using l Some by (simp add: showByName_def)
  next
    case False
    have "(n, w) \<in> set (views s)" using Some by (rule map_of_SomeD)
    then have "n \<in> fst ` set (views s)" by force
    then have "n \<in> fst ` set (views (showByName n s))" by simp
    moreover have "currentView (showByName n s) = Some n"
      using Some False by (simp add: showByName_hidden_target showTarget_def Let_def)
    ultimately show ?thesis by (simp add: currentIsLive_def)
  qed
qed

lemma currentIsLive_showInitial: "currentIsLive s \<Longrightarrow> currentIsLive (showInitial s)"
  by (simp add: showInitial_def currentIsLive_showByName split: option.splits)

lemma currentView_showByName_same:
  "currentView s = Some n \<Longrightarrow> currentView (showByName n s) = Some n"
  by (simp add: showByName_def notifyActive_def showTarget_def setCurrent_def Let_def
      showLoadingScreen_def emitEffect_def split: option.splits)

lemma showByName_visible_unless_errored:
  assumes "map_of (views s) n = Some v0"
  shows "\<exists>v1. map_of (views (showByName n s)) n = Some v1 \<and> (\<not> isErrored v1 \<longrightarrow> isVisible v1)"
proof (cases "isVisible v0")
  case True
  then show ?thesis using assms by (simp add: showByName_def)
next
  case False
  show ?thesis
  proof (cases "isErrored v0")
    case True
    then have "map_of (views (showByName n s)) n = Some v0"
      using assms False
      by (simp add: showByName_hidden_target map_of_showTarget map_of_hidePrevious)
    then show ?thesis using True by simp
  next
    case e: False
    have "map_of (views (showByName n s)) n = Some (v0\<lparr>isVisible := True\<rparr>)"
      by (rule showByName_shows_hidden(1) [OF assms False e])
    then show ?thesis by simp
  qed
qed

lemma destroyRemoved_eq:
  "destroyRemoved cur nv s =
     s\<lparr>effects := effects s @ map (\<lambda>(k, v). ViewDestroy (surface v))
                                   (filter (\<lambda>(k, v). map_of nv k = None) cur)\<rparr>"
  unfolding destroyRemoved_def
proof (induction cur arbitrary: s)
  case Nil
  then show ?case by simp
next
  case (Cons x cur)
  obtain k v where x: "x = (k, v)" by (cases x)
  show ?case using Cons.IH x by (simp add: emitEffect_def)
qed

lemma commitConfiguration_views:
  assumes c: "commitConfiguration servers s = (nv, s4)"
  shows "views s4 = mapFrom (map (\<lambda>(k, x). (view_name x, x)) nv)"
    and "currentView s4 = currentView s"
    and "distinct (map fst nv)"
    and "\<forall>(t, v) \<in> set nv. view_tuple v = t
           \<and> (\<exists>e \<in> set (openEntries servers). fst e = t \<and> ed_view (snd e) = view_name v)"
    and "fst ` set nv = fst ` set (openEntries servers)"
proof -
  obtain made s1 where m: "mapEntries (currentByTuple s) (openEntries servers) s = (made, s1)"
    by (cases "mapEntries (currentByTuple s) (openEntries servers) s")
  have nv: "nv = mapFrom made" using c m by (simp add: commitConfiguration_def Let_def)
  have s4: "s4 = commitClosed (closedEntries servers)
              ((destroyRemoved (currentByTuple s) nv s1)
                 \<lparr>views := mapFrom (map (\<lambda>(k, x). (view_name x, x)) nv)\<rparr>)"
    using c m nv by (auto simp: commitConfiguration_def Let_def)
  show "views s4 = mapFrom (map (\<lambda>(k, x). (view_name x, x)) nv)"
    unfolding s4 by (simp add: commitClosed_def)
  show "currentView s4 = currentView s"
    unfolding s4 using mapEntries_frame [OF m] by (simp add: commitClosed_def destroyRemoved_eq)
  show "distinct (map fst nv)" unfolding nv by (rule mapFrom_distinct)
  have wf: "list_all wfEntry (openEntries servers)"
    using openEntries_wf by (auto simp: list_all_iff)
  have snd: "list_all2 (\<lambda>e (t, v). t = fst e \<and> view_tuple v = fst e \<and> view_name v = ed_view (snd e))
      (openEntries servers) made"
    by (rule mapEntries_sound [OF m wf currentByTuple_keyed])
  show "\<forall>(t, v) \<in> set nv. view_tuple v = t
           \<and> (\<exists>e \<in> set (openEntries servers). fst e = t \<and> ed_view (snd e) = view_name v)"
  proof (clarify)
    fix a b v
    assume "((a, b), v) \<in> set nv"
    then have "((a, b), v) \<in> set made" using mapFrom_subset nv by blast
    then obtain e where "e \<in> set (openEntries servers)"
      "(a, b) = fst e \<and> view_tuple v = fst e \<and> view_name v = ed_view (snd e)"
      using list_all2_right_witness [OF snd] by fastforce
    then show "view_tuple v = (a, b)
           \<and> (\<exists>e \<in> set (openEntries servers). fst e = (a, b) \<and> ed_view (snd e) = view_name v)"
      by auto
  qed
  have "list_all2 (\<lambda>e p. fst p = fst e \<and> (view_tuple (snd p) = fst e \<and> view_name (snd p) = ed_view (snd e)))
      (openEntries servers) made"
    using snd by (rule list_all2_mono) auto
  then have "map fst made = map fst (openEntries servers)" by (rule list_all2_fst_eq)
  then have "fst ` set made = fst ` set (openEntries servers)" by (metis set_map)
  then show "fst ` set nv = fst ` set (openEntries servers)" unfolding nv by (simp add: mapFrom_keys)
qed

lemma map_of_unique_value:
  assumes "n \<in> fst ` set L" "\<forall>(k, v) \<in> set L. k = n \<longrightarrow> v = w"
  shows "map_of L n = Some w"
proof -
  obtain y where y: "map_of L n = Some y" using assms(1) by (meson map_of_eq_None_iff not_Some_eq)
  then have "(n, y) \<in> set L" by (rule map_of_SomeD)
  then have "y = w" using assms(2) by auto
  then show ?thesis using y by simp
qed

lemma configEntries_nonempty: "configEntries servers \<noteq> [] \<Longrightarrow> servers \<noteq> []"
  by (auto simp: configEntries_def)

subsection \<open>Focus after a reload\<close>

lemma focusedTupleOf_active:
  assumes "currentView s = Some c" "c \<noteq> []" "map_of (views s) c = Some V"
  shows "focusedTupleOf s = Some (view_tuple V)"
    and "map_of (currentByTuple s) (view_tuple V) \<noteq> None"
proof -
  show "focusedTupleOf s = Some (view_tuple V)" using assms by (simp add: focusedTupleOf_def)
  have "(c, V) \<in> set (views s)" using assms(3) by (rule map_of_SomeD)
  then have "(view_tuple V, V) \<in> set (map (\<lambda>(n, x). (view_tuple x, x)) (views s))" by force
  then have "view_tuple V \<in> fst ` set (map (\<lambda>(n, x). (view_tuple x, x)) (views s))" by force
  then have "view_tuple V \<in> fst ` set (currentByTuple s)"
    unfolding currentByTuple_def by (simp only: mapFrom_keys)
  then show "map_of (currentByTuple s) (view_tuple V) \<noteq> None"
    by (simp add: map_of_eq_None_iff)
qed

lemma byName_lookup:
  assumes d: "distinct (map fst nv)"
    and snd: "\<forall>(t, v) \<in> set nv. view_tuple v = t
           \<and> (\<exists>e \<in> set (openEntries servers). fst e = t \<and> ed_view (snd e) = view_name v)"
    and names: "namesIdentifyKeys servers"
    and look: "map_of nv K = Some view"
  shows "map_of (mapFrom (map (\<lambda>(k, x). (view_name x, x)) nv)) (view_name view) = Some view"
proof -
  let ?L = "map (\<lambda>(k, x). (view_name x, x)) nv"
  have all: "\<forall>e \<in> set (openEntries servers). \<forall>e' \<in> set (openEntries servers).
      ed_view (snd e) = ed_view (snd e') \<longrightarrow> fst e = fst e'"
    using names unfolding namesIdentifyKeys_def list_all_iff .
  have mem: "(K, view) \<in> set nv" using look by (rule map_of_SomeD)
  then have "(view_name view, view) \<in> set ?L" by force
  then have a: "view_name view \<in> fst ` set (rev ?L)" by force
  have b: "\<forall>(k, v) \<in> set (rev ?L). k = view_name view \<longrightarrow> v = view"
  proof (clarify)
    fix v
    assume "(view_name view, v) \<in> set (rev ?L)"
    then obtain t where tv: "(t, v) \<in> set nv" and nm: "view_name v = view_name view" by auto
    obtain e where e: "e \<in> set (openEntries servers)" "fst e = t" "ed_view (snd e) = view_name v"
      using snd tv by fastforce
    obtain e' where e': "e' \<in> set (openEntries servers)" "fst e' = K" "ed_view (snd e') = view_name view"
      using snd mem by fastforce
    have "ed_view (snd e) = ed_view (snd e')" using e(3) e'(3) nm by simp
    then have "fst e = fst e'" using all [rule_format, OF e(1) e'(1)] by simp
    then have "t = K" using e(2) e'(2) by simp
    then show "v = view" using tv mem d by (simp add: eq_key_imp_eq_value)
  qed
  have "map_of (rev ?L) (view_name view) = Some view" by (rule map_of_unique_value [OF a b])
  then show ?thesis by (simp add: mapFrom_map_of)
qed

text \<open>
  The focus step in general. The active view \<open>V\<close> (the view under \<^verbatim>\<open>currentView\<close>) has
  the tuple \<open>K\<close>, the new configuration has a tab with tuple \<open>K\<close>, open or closed, and no
  two of its open tabs with different tuples share a view name. If \<open>K\<close> is open in the
  new configuration, \<^verbatim>\<open>currentView\<close> afterwards names a view of \<^verbatim>\<open>views\<close> with tuple
  \<open>K\<close>, and that view is visible unless it is errored. If \<open>K\<close> is only closed,
  \<^verbatim>\<open>showInitial\<close> runs twice on the committed state with \<^verbatim>\<open>currentView\<close> deleted; it
  reads \<^verbatim>\<open>this.configServers\<close>, which \<^verbatim>\<open>reloadConfiguration\<close> does not update. In both
  cases \<^verbatim>\<open>currentView\<close> is unset or names a live view.
\<close>

lemma reloadConfiguration_focus_step:
  assumes cur: "currentView s = Some c" "c \<noteq> []" "map_of (views s) c = Some V"
    and contains: "view_tuple V \<in> fst ` set (openEntries servers) \<union> fst ` set (closedEntries servers)"
    and names: "namesIdentifyKeys servers"
  shows "(view_tuple V \<in> fst ` set (openEntries servers) \<longrightarrow>
           (\<exists>n v. currentView (reloadConfiguration servers s) = Some n
              \<and> map_of (views (reloadConfiguration servers s)) n = Some v
              \<and> view_tuple v = view_tuple V
              \<and> (\<not> isErrored v \<longrightarrow> isVisible v)))
       \<and> (view_tuple V \<notin> fst ` set (openEntries servers) \<longrightarrow>
            reloadConfiguration servers s =
              showInitial (showInitial ((snd (commitConfiguration servers s))\<lparr>currentView := None\<rparr>)))
       \<and> currentIsLive (reloadConfiguration servers s)"
proof -
  let ?K = "view_tuple V"
  obtain nv s4 where c: "commitConfiguration servers s = (nv, s4)"
    by (cases "commitConfiguration servers s")
  note cv = commitConfiguration_views [OF c]
  have ft: "focusedTupleOf s = Some ?K" and inCur: "map_of (currentByTuple s) ?K \<noteq> None"
    using focusedTupleOf_active [OF cur] by simp_all
  define s1 where "s1 = (if servers \<noteq> [] then showInitial (s4\<lparr>currentView := None\<rparr>)
             else emitEffect SendSetActiveViewNone s4)"
  have r: "reloadConfiguration servers s =
      (case map_of nv ?K of
         None \<Rightarrow> showInitial s1
       | Some view \<Rightarrow> showByName (view_name view) (s1\<lparr>currentView := Some (view_name view)\<rparr>))"
    using c ft inCur
    by (cases "map_of nv ?K") (simp_all add: reloadConfiguration_def refocus_def Let_def s1_def)
  have cores1: "viewCores s1 = viewCores s4" by (simp add: s1_def)
  show ?thesis
  proof (cases "?K \<in> fst ` set (openEntries servers)")
    case True
    then have "?K \<in> fst ` set nv" using cv(5) by simp
    then obtain view where look: "map_of nv ?K = Some view"
      by (meson map_of_eq_None_iff not_Some_eq)
    let ?n = "view_name view"
    define s2 where "s2 = s1\<lparr>currentView := Some (view_name view)\<rparr>"
    have res: "reloadConfiguration servers s = showByName ?n s2" using r look by (simp add: s2_def)
    have "(?K, view) \<in> set nv" using look by (rule map_of_SomeD)
    then have tv: "view_tuple view = ?K" using cv(4) by auto
    have v4: "map_of (views s4) ?n = Some view"
      unfolding cv(1) by (rule byName_lookup [OF cv(3) cv(4) names look])
    have cores2: "viewCores s2 = viewCores s4" using cores1 by (simp add: s2_def)
    have coresR: "viewCores (showByName ?n s2) = viewCores s4" using cores2 by simp
    have cur2: "currentView s2 = Some ?n" by (simp add: s2_def)
    have core4: "map_of (viewCores s4) ?n = Some (view\<lparr>isVisible := False\<rparr>)"
      using v4 by (simp add: map_of_viewCores)
    have "map_of (viewCores s2) ?n = Some (view\<lparr>isVisible := False\<rparr>)"
      using core4 by (simp only: cores2)
    then have "map_option (\<lambda>v. v\<lparr>isVisible := False\<rparr>) (map_of (views s2) ?n)
        = Some (view\<lparr>isVisible := False\<rparr>)"
      by (simp only: map_of_viewCores)
    then obtain v0 where v0: "map_of (views s2) ?n = Some v0"
      by (cases "map_of (views s2) ?n") simp_all
    obtain v1 where v1: "map_of (views (showByName ?n s2)) ?n = Some v1"
      "\<not> isErrored v1 \<longrightarrow> isVisible v1"
      using showByName_visible_unless_errored [OF v0] by blast
    have "map_of (viewCores (showByName ?n s2)) ?n = Some (view\<lparr>isVisible := False\<rparr>)"
      using core4 by (simp only: coresR)
    then have "map_option (\<lambda>v. v\<lparr>isVisible := False\<rparr>) (map_of (views (showByName ?n s2)) ?n)
        = Some (view\<lparr>isVisible := False\<rparr>)"
      by (simp only: map_of_viewCores)
    then have "v1\<lparr>isVisible := False\<rparr> = view\<lparr>isVisible := False\<rparr>"
      by (simp only: v1(1) option.map option.inject)
    then have "view_tuple v1 = view_tuple view" by (rule same_core_tuple)
    then have t1: "view_tuple v1 = ?K" using tv by simp
    have c1: "currentView (showByName ?n s2) = Some ?n"
      by (rule currentView_showByName_same [OF cur2])
    have "(?n, v0) \<in> set (views s2)" using v0 by (rule map_of_SomeD)
    then have "?n \<in> fst ` set (views s2)" by (rule rev_image_eqI) simp
    then have "currentIsLive s2" using cur2 by (simp add: currentIsLive_def)
    then have l: "currentIsLive (showByName ?n s2)" by (rule currentIsLive_showByName)
    have "\<exists>n v. currentView (reloadConfiguration servers s) = Some n
              \<and> map_of (views (reloadConfiguration servers s)) n = Some v
              \<and> view_tuple v = view_tuple V
              \<and> (\<not> isErrored v \<longrightarrow> isVisible v)"
      unfolding res using c1 v1 t1 by blast
    moreover have "currentIsLive (reloadConfiguration servers s)" unfolding res by (rule l)
    ultimately show ?thesis using True by blast
  next
    case False
    then have "?K \<notin> fst ` set nv" using cv(5) by simp
    then have look: "map_of nv ?K = None" by (simp add: map_of_eq_None_iff)
    have "?K \<in> fst ` set (closedEntries servers)" using contains False by blast
    then obtain x where "x \<in> set (closedEntries servers)" by blast
    then have "x \<in> set (configEntries servers)" using closedEntries_subset by blast
    then have "configEntries servers \<noteq> []" by auto
    then have ne: "servers \<noteq> []" by (rule configEntries_nonempty)
    have res: "reloadConfiguration servers s = showInitial (showInitial (s4\<lparr>currentView := None\<rparr>))"
      using r look ne by (simp add: s1_def)
    have "currentIsLive (s4\<lparr>currentView := None\<rparr>)" by (simp add: currentIsLive_def)
    then have "currentIsLive (showInitial (showInitial (s4\<lparr>currentView := None\<rparr>)))"
      by (intro currentIsLive_showInitial)
    then have "currentIsLive (reloadConfiguration servers s)" by (simp only: res)
    moreover have "reloadConfiguration servers s =
              showInitial (showInitial ((snd (commitConfiguration servers s))\<lparr>currentView := None\<rparr>))"
      using res c by simp
    ultimately show ?thesis using False by blast
  qed
qed

text \<open>
  C1 fails where the focused tab is closed by the new configuration. Server A has the
  tabs messaging and board, both open, and messaging is the active view. The new
  configuration closes messaging and keeps the board open, so the tuple of the active
  view is still in it, as a closed tab, and its default selection is the board tab.
  After \<^verbatim>\<open>reloadConfiguration\<close> no view is selected and none is visible:
  \<^verbatim>\<open>showInitial\<close> reads \<^verbatim>\<open>this.configServers\<close>, which still holds the old
  configuration, and asks for the messaging view, which has been destroyed. Where the
  focused tab stays open, the view is selected again, but a view that was visible
  without being the current one stays visible beside it: with the board tab shown, a
  reload of the unchanged configuration leaves both views visible.
\<close>

theorem reloadConfiguration_closed_focus_lost:
  "currentView exLoadedA = Some ''A:TAB_MESSAGING''
   \<and> visibility exLoadedA = [(''A:TAB_MESSAGING'', True), (''A:TAB_FOCALBOARD'', False)]
   \<and> focusedTupleOf exLoadedA = Some (''https://a.example.com/'', TAB_MESSAGING)
   \<and> map fst (openEntries exConfigAMsgClosed) = [(''https://a.example.com/'', TAB_FOCALBOARD)]
   \<and> map fst (closedEntries exConfigAMsgClosed) = [(''https://a.example.com/'', TAB_MESSAGING)]
   \<and> map (map_option tab_name \<circ> initialTab) exConfigAMsgClosed = [Some TAB_FOCALBOARD]
   \<and> currentView (reloadConfiguration exConfigAMsgClosed exLoadedA) = None
   \<and> visibility (reloadConfiguration exConfigAMsgClosed exLoadedA) = [(''A:TAB_FOCALBOARD'', False)]
   \<and> configServers (reloadConfiguration exConfigAMsgClosed exLoadedA) = exConfigA
   \<and> drop (length (effects exLoadedA)) (effects (reloadConfiguration exConfigAMsgClosed exLoadedA))
       = [ViewDestroy 0, ShowModal, ShowModal]
   \<and> currentView (showByName ''A:TAB_FOCALBOARD'' exLoadedA) = Some ''A:TAB_FOCALBOARD''
   \<and> visibility (showByName ''A:TAB_FOCALBOARD'' exLoadedA)
       = [(''A:TAB_MESSAGING'', False), (''A:TAB_FOCALBOARD'', True)]
   \<and> currentView (reloadConfiguration exConfigA (showByName ''A:TAB_FOCALBOARD'' exLoadedA))
       = Some ''A:TAB_FOCALBOARD''
   \<and> visibility (reloadConfiguration exConfigA (showByName ''A:TAB_FOCALBOARD'' exLoadedA))
       = [(''A:TAB_MESSAGING'', True), (''A:TAB_FOCALBOARD'', True)]"
  by code_simp

subsection \<open>Reloading a reordered configuration\<close>

lemma openEntries_pairs:
  "set (map (\<lambda>e. (fst e, ed_view (snd e))) (openEntries servers)) = (\<Union>x \<in> set servers. openPairs x)"
proof -
  have "set (map (\<lambda>e. (fst e, ed_view (snd e))) (openEntries servers))
      = (\<lambda>e. (fst e, ed_view (snd e))) ` {e \<in> set (configEntries servers). ed_open (snd e)}"
    by (simp add: openEntries_eq)
  also have "\<dots> = (\<Union>x \<in> set servers. openPairs x)"
    by (auto simp: configEntries_def openPairs_def extraData_def Let_def newMattermostServer_def image_iff)
      (force simp: extraData_def Let_def newMattermostServer_def)+
  finally show ?thesis .
qed

lemma sameTabs_open_names:
  assumes "sameTabs ts us"
  shows "tab_name ` {t \<in> set ts. tab_isOpen t} = tab_name ` {u \<in> set us. tab_isOpen u}"
proof -
  let ?p = "\<lambda>t. (tab_name t, tab_isOpen t)"
  have m: "map ?p ts = map ?p us"
    using assms unfolding sameTabs_def by (induction rule: list_all2_induct) simp_all
  have e: "tab_name ` {t \<in> set xs. tab_isOpen t} = fst ` {q \<in> set (map ?p xs). snd q}" for xs
    by force
  have "tab_name ` {t \<in> set ts. tab_isOpen t} = fst ` {q \<in> set (map ?p ts). snd q}" by (rule e)
  also have "\<dots> = fst ` {q \<in> set (map ?p us). snd q}" by (simp only: m)
  also have "\<dots> = tab_name ` {t \<in> set us. tab_isOpen t}" by (rule e [symmetric])
  finally show ?thesis .
qed

lemma openPairs_same:
  assumes "team_name a = team_name b" "team_url a = team_url b" "sameTabs (team_tabs a) (team_tabs b)"
  shows "openPairs a = openPairs b"
proof -
  have "openPairs a = (\<lambda>n. ((team_url a, n), getTabViewName (team_name a) n))
      ` tab_name ` {t \<in> set (team_tabs a). tab_isOpen t}"
    by (simp add: openPairs_def image_image)
  also have "\<dots> = (\<lambda>n. ((team_url b, n), getTabViewName (team_name b) n))
      ` tab_name ` {t \<in> set (team_tabs b). tab_isOpen t}"
    using assms(1,2) sameTabs_open_names [OF assms(3)] by simp
  also have "\<dots> = openPairs b" by (simp add: openPairs_def image_image)
  finally show ?thesis .
qed

lemma sameUpToOrder_pairs:
  assumes "sameUpToOrder c1 c2"
  shows "(\<Union>x \<in> set c1. openPairs x) = (\<Union>x \<in> set c2. openPairs x)"
  using assms unfolding sameUpToOrder_def
  by (induction rule: list_all2_induct) (simp_all add: openPairs_same)

lemma liveFor_reordered:
  assumes "liveFor c1 s" "sameUpToOrder c1 c2"
  shows "liveFor c2 s"
proof -
  have "set (map (\<lambda>e. (fst e, ed_view (snd e))) (openEntries c1))
      = set (map (\<lambda>e. (fst e, ed_view (snd e))) (openEntries c2))"
    by (simp only: openEntries_pairs sameUpToOrder_pairs [OF assms(2)])
  then show ?thesis using assms(1) by (simp only: liveFor_def)
qed

lemma configEntries_info:
  "e \<in> set (configEntries servers) \<Longrightarrow> ed_info (snd e) = newServerInfo (ed_srv (snd e))"
  by (auto simp: configEntries_def extraData_def Let_def)

lemma getTabViewName_inj: "getTabViewName a T = getTabViewName b T \<Longrightarrow> a = b"
  by (simp add: getTabViewName_def)

lemma surfaceEffects_append [simp]: "surfaceEffects (xs @ ys) = surfaceEffects xs @ surfaceEffects ys"
  by (simp add: surfaceEffects_def)

lemma surfaceEffects_showByName [simp]:
  "surfaceEffects (effects (showByName n s)) = surfaceEffects (effects s)"
  by (simp add: showByName_def notifyActive_def showTarget_def setCurrent_def hidePrevious_def
      showLoadingScreen_def emitEffect_def Let_def surfaceEffects_def split: option.splits)

lemma surfaceEffects_showInitial [simp]:
  "surfaceEffects (effects (showInitial s)) = surfaceEffects (effects s)"
  by (simp add: showInitial_def split: option.splits)

lemma nextSurface_showByName [simp]: "nextSurface (showByName n s) = nextSurface s"
  by (simp add: showByName_def notifyActive_def showTarget_def setCurrent_def hidePrevious_def
      showLoadingScreen_def emitEffect_def Let_def split: option.splits)

lemma nextSurface_showInitial [simp]: "nextSurface (showInitial s) = nextSurface s"
  by (simp add: showInitial_def split: option.splits)

lemma surfaceEffects_setActiveNone [simp]:
  "surfaceEffects (effects (emitEffect SendSetActiveViewNone s)) = surfaceEffects (effects s)"
  by (simp add: emitEffect_def surfaceEffects_def)

lemma nextSurface_emitEffect [simp]: "nextSurface (emitEffect e s) = nextSurface s"
  by (simp add: emitEffect_def)

lemma refocus_cores: "viewCores (refocus servers ft cur closed nv s) = viewCores s"
  by (simp add: refocus_def Let_def split: option.splits)

lemma refocus_surfaceEffects:
  "surfaceEffects (effects (refocus servers ft cur closed nv s)) = surfaceEffects (effects s)"
  by (simp add: refocus_def Let_def split: option.splits)

lemma refocus_nextSurface: "nextSurface (refocus servers ft cur closed nv s) = nextSurface s"
  by (simp add: refocus_def Let_def split: option.splits)

lemma mapEntries_all_recycled:
  assumes "\<forall>e \<in> set es. map_of cur (fst e) \<noteq> None"
  shows "mapEntries cur es s =
     (map (\<lambda>e. (fst e, (the (map_of cur (fst e)))
                        \<lparr>serverInfo := ed_info (snd e), tab_server := ed_srv (snd e)\<rparr>)) es, s)"
  using assms
proof (induction es)
  case Nil
  then show ?case by simp
next
  case (Cons e es)
  obtain r where r: "map_of cur (fst e) = Some r" using Cons.prems by auto
  have "mapEntries cur es s =
     (map (\<lambda>e. (fst e, (the (map_of cur (fst e)))
                        \<lparr>serverInfo := ed_info (snd e), tab_server := ed_srv (snd e)\<rparr>)) es, s)"
    using Cons.prems by (intro Cons.IH) simp
  then show ?case using r by (simp add: newOrRecycledEntry_def)
qed

lemma liveFor_current:
  assumes l: "liveFor servers s"
  shows "currentByTuple s = map (\<lambda>(n, x). (view_tuple x, x)) (views s)"
proof -
  have "map fst (map (\<lambda>(n, x). (view_tuple x, x)) (views s)) = map (\<lambda>(n, v). view_tuple v) (views s)"
    by (simp add: case_prod_unfold comp_def)
  then have "distinct (map fst (map (\<lambda>(n, x). (view_tuple x, x)) (views s)))"
    using l by (simp only: liveFor_def)
  then show ?thesis unfolding currentByTuple_def by (rule mapFrom_distinct_id)
qed

lemma liveFor_lookup:
  assumes l: "liveFor servers s" and m: "(n, v) \<in> set (views s)"
  shows "map_of (currentByTuple s) (view_tuple v) = Some v"
proof -
  have d: "distinct (map fst (currentByTuple s))" unfolding currentByTuple_def by (rule mapFrom_distinct)
  have "(view_tuple v, v) \<in> set (map (\<lambda>(n, x). (view_tuple x, x)) (views s))" using m by force
  then have "(view_tuple v, v) \<in> set (currentByTuple s)" by (simp only: liveFor_current [OF l])
  then show ?thesis using d by simp
qed

lemma liveFor_entry:
  assumes l: "liveFor servers s" and e: "e \<in> set (openEntries servers)"
  shows "\<exists>n v. (n, v) \<in> set (views s) \<and> view_tuple v = fst e \<and> n = ed_view (snd e)
           \<and> ed_srv (snd e) = tab_server v \<and> ed_info (snd e) = newServerInfo (tab_server v)"
proof -
  have "(fst e, ed_view (snd e)) \<in> set (map (\<lambda>e. (fst e, ed_view (snd e))) (openEntries servers))"
    using e by force
  then have "(fst e, ed_view (snd e)) \<in> set (map (\<lambda>(n, v). (view_tuple v, n)) (views s))"
    using l by (simp only: liveFor_def)
  then obtain n v where nv: "(n, v) \<in> set (views s)" "view_tuple v = fst e" "n = ed_view (snd e)"
    by auto
  have kn: "n = view_name v" using l nv(1) by (auto simp: liveFor_def list_all_iff)
  have wf: "wfEntry e" using e by (rule openEntries_wf)
  have url: "srv_url (ed_srv (snd e)) = srv_url (tab_server v)"
    using wf nv(2) by (simp add: wfEntry_def view_tuple_def)
  have ty: "tab_name (ed_tab (snd e)) = tab_type v"
    using wf nv(2) by (simp add: wfEntry_def view_tuple_def)
  have "getTabViewName (srv_name (ed_srv (snd e))) (tab_type v)
      = getTabViewName (srv_name (tab_server v)) (tab_type v)"
    using wf nv(3) kn ty by (simp add: wfEntry_def view_name_def)
  then have nm: "srv_name (ed_srv (snd e)) = srv_name (tab_server v)" by (rule getTabViewName_inj)
  have srv: "ed_srv (snd e) = tab_server v" using url nm by simp
  have "e \<in> set (configEntries servers)" using e openEntries_subset by blast
  then have "ed_info (snd e) = newServerInfo (ed_srv (snd e))" by (rule configEntries_info)
  then show ?thesis using nv srv by auto
qed

lemma liveFor_has_entry:
  assumes l: "liveFor servers s" and m: "(n, v) \<in> set (views s)"
  shows "view_tuple v \<in> fst ` set (openEntries servers)"
proof -
  have "(view_tuple v, n) \<in> set (map (\<lambda>(n, v). (view_tuple v, n)) (views s))" using m by force
  then have "(view_tuple v, n) \<in> set (map (\<lambda>e. (fst e, ed_view (snd e))) (openEntries servers))"
    using l by (simp only: liveFor_def)
  then show ?thesis by auto
qed

lemma liveFor_same_tuple:
  assumes l: "liveFor servers s" and a: "(n, v) \<in> set (views s)" and b: "(m, w) \<in> set (views s)"
    and t: "view_tuple v = view_tuple w"
  shows "n = m \<and> v = w"
proof -
  have dt: "distinct (map (\<lambda>(n, v). view_tuple v) (views s))" using l by (simp only: liveFor_def)
  have "inj_on (\<lambda>(n, v). view_tuple v) (set (views s))" using dt by (rule distinct_map [THEN iffD1, THEN conjunct2])
  moreover have "(\<lambda>(n, v). view_tuple v) (n, v) = (\<lambda>(n, v). view_tuple v) (m, w)" using t by simp
  ultimately have "(n, v) = (m, w)" using a b by (rule inj_onD)
  then show ?thesis by simp
qed

lemma liveFor_recycled:
  assumes l: "liveFor servers s" and e: "e \<in> set (openEntries servers)"
  shows "\<exists>n v. (n, v) \<in> set (views s) \<and> fst e = view_tuple v
     \<and> (the (map_of (currentByTuple s) (fst e)))\<lparr>serverInfo := ed_info (snd e), tab_server := ed_srv (snd e)\<rparr>
         = refreshed v"
proof -
  obtain n v where nv: "(n, v) \<in> set (views s)" "view_tuple v = fst e"
      "ed_srv (snd e) = tab_server v" "ed_info (snd e) = newServerInfo (tab_server v)"
    using liveFor_entry [OF l e] by blast
  have "map_of (currentByTuple s) (fst e) = Some v" using liveFor_lookup [OF l nv(1)] nv(2) by simp
  then have "(the (map_of (currentByTuple s) (fst e)))\<lparr>serverInfo := ed_info (snd e), tab_server := ed_srv (snd e)\<rparr>
      = refreshed v"
    using nv(3,4) by (simp add: refreshed_def)
  then show ?thesis using nv(1,2) by metis
qed

lemma view_name_refreshed [simp]: "view_name (refreshed v) = view_name v"
  and view_tuple_refreshed [simp]: "view_tuple (refreshed v) = view_tuple v"
  by (simp_all add: refreshed_def view_name_def view_tuple_def)

lemma liveFor_commit:
  assumes l: "liveFor servers s"
  shows "\<exists>nv s4. commitConfiguration servers s = (nv, s4)
       \<and> effects s4 = effects s \<and> nextSurface s4 = nextSurface s
       \<and> (\<forall>n v. (n, v) \<in> set (views s) \<longrightarrow> map_of (views s4) n = Some (refreshed v))
       \<and> (\<forall>n w. (n, w) \<in> set (views s4) \<longrightarrow> (\<exists>m v. (m, v) \<in> set (views s) \<and> w = refreshed v))"
proof -
  let ?cur = "currentByTuple s"
  let ?g = "\<lambda>e. (fst e, (the (map_of ?cur (fst e)))
                        \<lparr>serverInfo := ed_info (snd e), tab_server := ed_srv (snd e)\<rparr>)"
  let ?made = "map ?g (openEntries servers)"
  let ?nv = "mapFrom ?made"
  let ?L = "map (\<lambda>(k, x). (view_name x, x)) ?nv"
  have allrec: "\<forall>e \<in> set (openEntries servers). map_of ?cur (fst e) \<noteq> None"
  proof
    fix e assume e: "e \<in> set (openEntries servers)"
    obtain n v where "(n, v) \<in> set (views s)" "view_tuple v = fst e"
      using liveFor_entry [OF l e] by blast
    then show "map_of ?cur (fst e) \<noteq> None" using liveFor_lookup [OF l] by force
  qed
  have me: "mapEntries ?cur (openEntries servers) s = (?made, s)"
    by (rule mapEntries_all_recycled [OF allrec])
  have made: "\<exists>n v. (n, v) \<in> set (views s) \<and> t = view_tuple v \<and> w = refreshed v"
    if "(t, w) \<in> set ?made" for t w
  proof -
    have "(t, w) \<in> ?g ` set (openEntries servers)" using that by simp
    then obtain e where e: "e \<in> set (openEntries servers)" "(t, w) = ?g e" by (rule imageE)
    obtain n v where "(n, v) \<in> set (views s)" "fst e = view_tuple v"
      "(the (map_of ?cur (fst e)))\<lparr>serverInfo := ed_info (snd e), tab_server := ed_srv (snd e)\<rparr> = refreshed v"
      using liveFor_recycled [OF l e(1)] by blast
    then show ?thesis using e(2) by auto
  qed
  have nvsub: "set ?nv \<subseteq> set ?made" by (rule mapFrom_subset)
  have nvkeys: "fst ` set ?nv = fst ` set (openEntries servers)"
    by (simp add: mapFrom_keys image_image)
  have nvd: "distinct (map fst ?nv)" by (rule mapFrom_distinct)
  have nvlook: "map_of ?nv (view_tuple v) = Some (refreshed v)" if m: "(n, v) \<in> set (views s)" for n v
  proof -
    have "view_tuple v \<in> fst ` set ?nv" using liveFor_has_entry [OF l m] nvkeys by simp
    then obtain w where w: "(view_tuple v, w) \<in> set ?nv" by force
    then obtain n' v' where v': "(n', v') \<in> set (views s)" "view_tuple v = view_tuple v'" "w = refreshed v'"
      using made nvsub by blast
    have "v = v'" using liveFor_same_tuple [OF l m v'(1) v'(2)] by simp
    then show ?thesis using w v'(3) nvd by simp
  qed
  have nodestroy: "filter (\<lambda>(k, v). map_of ?nv k = None) ?cur = []"
  proof -
    have "map_of ?nv k \<noteq> None" if "(k, v) \<in> set ?cur" for k v
    proof -
      have "(k, v) \<in> set (map (\<lambda>(n, x). (view_tuple x, x)) (views s))"
        using that by (simp only: liveFor_current [OF l])
      then obtain n where "(n, v) \<in> set (views s)" "k = view_tuple v" by auto
      then show ?thesis using nvlook by simp
    qed
    then show ?thesis by (auto simp: filter_empty_conv)
  qed
  let ?s4 = "commitClosed (closedEntries servers) (s\<lparr>views := mapFrom ?L\<rparr>)"
  have c: "commitConfiguration servers s = (?nv, ?s4)"
    using me nodestroy by (simp add: commitConfiguration_def Let_def destroyRemoved_eq)
  have v4: "views ?s4 = mapFrom ?L" by (simp add: commitClosed_def)
  have look4: "map_of (views ?s4) n = Some (refreshed v)" if m: "(n, v) \<in> set (views s)" for n v
  proof -
    have kn: "n = view_name v" using l m by (auto simp: liveFor_def list_all_iff)
    have "(view_tuple v, refreshed v) \<in> set ?nv" using nvlook [OF m] by (rule map_of_SomeD)
    then have "(n, refreshed v) \<in> set (rev ?L)" using kn by force
    then have a: "n \<in> fst ` set (rev ?L)" by force
    have b: "\<forall>(k, w) \<in> set (rev ?L). k = n \<longrightarrow> w = refreshed v"
    proof (clarify)
      fix w assume "(n, w) \<in> set (rev ?L)"
      then obtain t where t: "(t, w) \<in> set ?nv" "view_name w = n" by auto
      obtain n' v' where v': "(n', v') \<in> set (views s)" "w = refreshed v'"
        using made nvsub t(1) by blast
      have "n' = view_name v'" using l v'(1) by (auto simp: liveFor_def list_all_iff)
      then have "n' = n" using t(2) v'(2) by simp
      moreover have "distinct (map fst (views s))" using l by (simp only: liveFor_def)
      ultimately have "v' = v" using v'(1) m by (simp add: eq_key_imp_eq_value)
      then show "w = refreshed v" using v'(2) by simp
    qed
    have "map_of (rev ?L) n = Some (refreshed v)" by (rule map_of_unique_value [OF a b])
    then show ?thesis unfolding v4 by (simp add: mapFrom_map_of)
  qed
  have back4: "\<exists>m v. (m, v) \<in> set (views s) \<and> w = refreshed v" if "(n, w) \<in> set (views ?s4)" for n w
  proof -
    have "(n, w) \<in> set ?L" using that mapFrom_subset unfolding v4 by blast
    then obtain t where "(t, w) \<in> set ?nv" by auto
    then show ?thesis using made nvsub by blast
  qed
  have "effects ?s4 = effects s" "nextSurface ?s4 = nextSurface s" by (simp_all add: commitClosed_def)
  then show ?thesis using c look4 back4 by blast
qed

lemma tuples_viewCores:
  "map (\<lambda>(n, v). view_tuple v) (viewCores s) = map (\<lambda>(n, v). view_tuple v) (views s)"
  by (simp add: viewCores_def case_prod_unfold comp_def view_tuple_def)

text \<open>
  C3. The state holds the live-view set of \<open>c1\<close>, and \<open>c2\<close> differs from \<open>c1\<close> only
  in order values. After \<^verbatim>\<open>reloadConfiguration\<close> with \<open>c2\<close> the tuples of the live views
  are the same set, no surface was destroyed or loaded and none was created, and every
  view is still in \<^verbatim>\<open>views\<close> under its name, the same but for a new \<^verbatim>\<open>ServerInfo\<close>
  (the server it is bound to has the same name and URL) and for its visibility, which
  the focus step sets.
\<close>

theorem reloadConfiguration_reorder_stable:
  assumes l1: "liveFor c1 s" and same: "sameUpToOrder c1 c2"
  shows "set (map (\<lambda>(n, v). view_tuple v) (views (reloadConfiguration c2 s)))
           = set (map (\<lambda>(n, v). view_tuple v) (views s))
       \<and> surfaceEffects (effects (reloadConfiguration c2 s)) = surfaceEffects (effects s)
       \<and> nextSurface (reloadConfiguration c2 s) = nextSurface s
       \<and> (\<forall>n v. map_of (views s) n = Some v \<longrightarrow>
            (\<exists>v'. map_of (views (reloadConfiguration c2 s)) n = Some v'
               \<and> v'\<lparr>isVisible := False\<rparr> = (refreshed v)\<lparr>isVisible := False\<rparr>))"
proof -
  have l: "liveFor c2 s" by (rule liveFor_reordered [OF l1 same])
  obtain nv s4 where c: "commitConfiguration c2 s = (nv, s4)"
    and e4: "effects s4 = effects s" and n4: "nextSurface s4 = nextSurface s"
    and look4: "\<And>n v. (n, v) \<in> set (views s) \<Longrightarrow> map_of (views s4) n = Some (refreshed v)"
    and back4: "\<And>n w. (n, w) \<in> set (views s4) \<Longrightarrow> \<exists>m v. (m, v) \<in> set (views s) \<and> w = refreshed v"
    using liveFor_commit [OF l] by blast
  define s' where "s' = reloadConfiguration c2 s"
  have r: "s' = refocus c2 (focusedTupleOf s) (currentByTuple s) (closedEntries c2) nv s4"
    using c by (simp add: s'_def reloadConfiguration_def)
  have cores: "viewCores s' = viewCores s4" unfolding r by (rule refocus_cores)
  have eff: "surfaceEffects (effects s') = surfaceEffects (effects s)"
    unfolding r using e4 by (simp only: refocus_surfaceEffects)
  have nxt: "nextSurface s' = nextSurface s" unfolding r using n4 by (simp only: refocus_nextSurface)
  have "map (\<lambda>(n, v). view_tuple v) (views s') = map (\<lambda>(n, v). view_tuple v) (views s4)"
    using cores tuples_viewCores by metis
  then have t1: "set (map (\<lambda>(n, v). view_tuple v) (views s')) = set (map (\<lambda>(n, v). view_tuple v) (views s4))"
    by simp
  have t2: "set (map (\<lambda>(n, v). view_tuple v) (views s4)) = set (map (\<lambda>(n, v). view_tuple v) (views s))"
  proof (intro set_eqI iffI)
    fix t assume "t \<in> set (map (\<lambda>(n, v). view_tuple v) (views s4))"
    then obtain n w where w: "(n, w) \<in> set (views s4)" "t = view_tuple w" by auto
    obtain m v where "(m, v) \<in> set (views s)" "w = refreshed v" using back4 [OF w(1)] by blast
    then show "t \<in> set (map (\<lambda>(n, v). view_tuple v) (views s))" using w(2) by force
  next
    fix t assume "t \<in> set (map (\<lambda>(n, v). view_tuple v) (views s))"
    then obtain n v where v: "(n, v) \<in> set (views s)" "t = view_tuple v" by auto
    have "(n, refreshed v) \<in> set (views s4)" using look4 [OF v(1)] by (rule map_of_SomeD)
    then show "t \<in> set (map (\<lambda>(n, v). view_tuple v) (views s4))" using v(2) by force
  qed
  have rec: "\<exists>v'. map_of (views s') n = Some v'
               \<and> v'\<lparr>isVisible := False\<rparr> = (refreshed v)\<lparr>isVisible := False\<rparr>"
    if "map_of (views s) n = Some v" for n v
  proof -
    have "(n, v) \<in> set (views s)" using that by (rule map_of_SomeD)
    then have "map_of (views s4) n = Some (refreshed v)" by (rule look4)
    then have "map_of (viewCores s4) n = Some ((refreshed v)\<lparr>isVisible := False\<rparr>)"
      by (simp add: map_of_viewCores)
    then have "map_of (viewCores s') n = Some ((refreshed v)\<lparr>isVisible := False\<rparr>)"
      by (simp only: cores)
    then have "map_option (\<lambda>v. v\<lparr>isVisible := False\<rparr>) (map_of (views s') n)
        = Some ((refreshed v)\<lparr>isVisible := False\<rparr>)"
      by (simp only: map_of_viewCores)
    then show ?thesis by (cases "map_of (views s') n") simp_all
  qed
  show ?thesis using t1 t2 eff nxt rec unfolding s'_def by blast
qed

theorem reloadConfiguration_reorder_stable_witness:
  "liveFor exConfigAB exLoadedAB \<and> sameUpToOrder exConfigAB exConfigABReordered
   \<and> set (map (\<lambda>(n, v). view_tuple v) (views (reloadConfiguration exConfigABReordered exLoadedAB)))
       = set (map (\<lambda>(n, v). view_tuple v) (views exLoadedAB))
   \<and> surfaceEffects (effects (reloadConfiguration exConfigABReordered exLoadedAB))
       = surfaceEffects (effects exLoadedAB)
   \<and> nextSurface (reloadConfiguration exConfigABReordered exLoadedAB) = nextSurface exLoadedAB
   \<and> map_of (views exLoadedAB) ''A:TAB_MESSAGING'' = Some exActive
   \<and> (\<exists>v'. map_of (views (reloadConfiguration exConfigABReordered exLoadedAB)) ''A:TAB_MESSAGING''
              = Some v'
          \<and> v'\<lparr>isVisible := False\<rparr> = (refreshed exActive)\<lparr>isVisible := False\<rparr>)"
proof -
  have l: "liveFor exConfigAB exLoadedAB" by code_simp
  have o: "sameUpToOrder exConfigAB exConfigABReordered" by code_simp
  have v: "map_of (views exLoadedAB) ''A:TAB_MESSAGING'' = Some exActive" by code_simp
  note t = reloadConfiguration_reorder_stable [OF l o]
  from t v have "\<exists>v'. map_of (views (reloadConfiguration exConfigABReordered exLoadedAB)) ''A:TAB_MESSAGING''
              = Some v'
          \<and> v'\<lparr>isVisible := False\<rparr> = (refreshed exActive)\<lparr>isVisible := False\<rparr>"
    by blast
  then show ?thesis using l o v t by blast
qed

subsection \<open>Live and closed names\<close>

text \<open>Creating a view deletes the closed-tab record of its name, so \<open>makeView\<close>,
  \<open>loadView\<close> on an open tab, \<open>showByName\<close> and \<open>openClosedTab\<close> keep the two
  key sets apart.\<close>

lemma disjointKeys_iff:
  "disjointKeys s \<longleftrightarrow> fst ` set (views s) \<inter> fst ` set (closedViews s) = {}"
  by (auto simp: disjointKeys_def list_all_iff)

lemma disjointKeys_makeView:
  assumes "disjointKeys s"
  shows "disjointKeys (snd (makeView srv info tab url s))"
proof -
  let ?n = "getTabViewName (srv_name srv) (tab_name tab)"
  let ?s = "snd (makeView srv info tab url s)"
  have v: "fst ` set (views ?s) = fst ` set (views s)" by (simp add: makeView_eq)
  have "fst ` set (AList.delete ?n (closedViews s)) \<subseteq> fst ` set (closedViews s)"
    by (rule AList.dom_delete_subset)
  then have c: "fst ` set (closedViews ?s) \<subseteq> fst ` set (closedViews s)" by (simp add: makeView_eq)
  have "fst ` set (views s) \<inter> fst ` set (closedViews s) = {}" using assms by (simp only: disjointKeys_iff)
  then have "fst ` set (views ?s) \<inter> fst ` set (closedViews ?s) = {}" using v c by blast
  then show ?thesis by (simp only: disjointKeys_iff)
qed

lemma disjointKeys_loadView_open:
  assumes "disjointKeys s" "tab_isOpen tab"
  shows "disjointKeys (loadView srv info tab place url s)"
proof -
  let ?n = "getTabViewName (srv_name srv) (tab_name tab)"
  have a: "fst ` set (AList.delete ?n (closedViews s)) \<subseteq> fst ` set (closedViews s)"
    by (rule AList.dom_delete_subset)
  have b: "?n \<notin> fst ` set (AList.delete ?n (closedViews s))" by (rule AList.delete_notin_dom)
  let ?s = "loadView srv info tab place url s"
  have v: "fst ` set (views ?s) = insert ?n (fst ` set (views s))"
    by (simp add: loadView_open [OF assms(2)] AList.dom_update)
  have c: "fst ` set (closedViews ?s) = fst ` set (AList.delete ?n (closedViews s))"
    by (simp add: loadView_open [OF assms(2)])
  have "fst ` set (views s) \<inter> fst ` set (closedViews s) = {}"
    using assms(1) by (simp only: disjointKeys_iff)
  then have "fst ` set (views ?s) \<inter> fst ` set (closedViews ?s) = {}"
    unfolding v c using a b by blast
  then show ?thesis by (simp only: disjointKeys_iff)
qed

lemma disjointKeys_showByName [simp]: "disjointKeys (showByName n s) = disjointKeys s"
  by (simp add: disjointKeys_iff)

lemma disjointKeys_setTabOpen [simp]: "disjointKeys (setTabOpen n s) = disjointKeys s"
proof -
  have "map fst (closedViews (setTabOpen n s)) = map fst (closedViews s)"
    and "views (setTabOpen n s) = views s"
    by (simp_all add: setTabOpen_def split: option.splits)
  then show ?thesis by (simp add: disjointKeys_def)
qed

lemma disjointKeys_openClosedTab:
  assumes d: "disjointKeys s" and r: "openClosedTab name url s = Inr s'"
  shows "disjointKeys s'"
proof (cases "map_of (closedViews s) name")
  case None
  then show ?thesis using d r by (simp add: openClosedTab_def)
next
  case (Some p)
  obtain srv tab place where p: "p = (srv, tab, place)" by (cases p)
  let ?s2 = "showByName name
               (loadView srv (newServerInfo srv) (tab\<lparr>tab_isOpen := True\<rparr>) place url
                  (setTabOpen name s))"
  have d0: "disjointKeys (setTabOpen name s)" using d by simp
  have d2: "disjointKeys ?s2" using disjointKeys_loadView_open [OF d0] by simp
  obtain view where "map_of (views ?s2) name = Some view"
    using r Some p by (cases "map_of (views ?s2) name") (simp_all add: openClosedTab_def Let_def)
  then have "s' = emitEffect (EmitOpenTab (srv_name srv) (tab_name tab))
                 (?s2\<lparr>views := AList.map_entry name
                      (\<lambda>v. v\<lparr>isVisible := True,
                              onLoadSuccess := onLoadSuccess v @ [On (H_reshow name)]\<rparr>)
                      (views ?s2)\<rparr>)"
    using r Some p by (simp add: openClosedTab_def Let_def)
  then show ?thesis using d2 by (simp add: disjointKeys_iff emitEffect_def AList.dom_map_entry)
qed

text \<open>C7 (disjointness of \<open>views\<close> and \<open>closedViews\<close>): the recycling branch of
  \<open>reloadConfiguration\<close> stores a recycled view under the name derived from the new
  configuration and never deletes a closed-tab record of that name. Starting from the
  state loaded from servers A (messaging and board open) and B (messaging open, board
  closed), whose key sets are disjoint, reloading with the single server B at A's URL
  with both tabs open recycles A's board view under the name \<open>B:TAB_FOCALBOARD\<close>,
  while the closed-tab record \<open>B:TAB_FOCALBOARD\<close> of the removed server stays in
  \<open>closedViews\<close>: afterwards the name is a key of both maps.\<close>

theorem reloadConfiguration_rename_overlap:
  "disjointKeys exLoadedAB
   \<and> map fst (views exLoadedAB) = [''A:TAB_MESSAGING'', ''A:TAB_FOCALBOARD'', ''B:TAB_MESSAGING'']
   \<and> map fst (closedViews exLoadedAB) = [''B:TAB_FOCALBOARD'']
   \<and> map fst (views (reloadConfiguration exConfigRenamed exLoadedAB))
       = [''B:TAB_MESSAGING'', ''B:TAB_FOCALBOARD'']
   \<and> map fst (closedViews (reloadConfiguration exConfigRenamed exLoadedAB)) = [''B:TAB_FOCALBOARD'']
   \<and> \<not> disjointKeys (reloadConfiguration exConfigRenamed exLoadedAB)"
  by code_simp

end
